theory Spec2Isabelle
  imports Main "HOL-Library.Sublist"
begin

section \<open>Strings and formatting\<close>

text \<open>
  A Go \<^verbatim>\<open>string\<close> and a \<^verbatim>\<open>[]byte\<close> are sequences of bytes; both are modelled as
  \<^typ>\<open>string\<close>, a list of 8-bit characters. Text outside ASCII is written as the bytes of
  its UTF-8 encoding, which is how the Go compiler stores a string literal. \<^verbatim>\<open>len(s)\<close> is
  \<^term>\<open>length s\<close>: it counts bytes.
\<close>

text \<open>\<^verbatim>\<open>strings.Join(elems, sep)\<close>.\<close>

fun Join :: "string list \<Rightarrow> string \<Rightarrow> string" where
  "Join [] sep = []"
| "Join [e] sep = e"
| "Join (e # e' # es) sep = e @ sep @ Join (e' # es) sep"

text \<open>\<^verbatim>\<open>strings.Repeat(s, count)\<close> for a non-negative count.\<close>

definition Repeat :: "string \<Rightarrow> nat \<Rightarrow> string" where
  "Repeat s n = concat (replicate n s)"

text \<open>
  The operands left over when the format is exhausted: \<^verbatim>\<open>fmt\<close> appends
  \<^verbatim>\<open>%!(EXTRA string=a, string=b)\<close>.
\<close>

definition extraOperands :: "string list \<Rightarrow> string" where
  "extraOperands args =
    (if args = [] then []
     else ''%!(EXTRA '' @ Join (map (\<lambda>a. ''string='' @ a) args) '', '' @ '')'')"

text \<open>
  \<^verbatim>\<open>fmt.Sprintf(format, args...)\<close> for operands that are strings (or errors, which
  \<^verbatim>\<open>%v\<close> prints through their \<^verbatim>\<open>Error()\<close> text). The model is exact on the fragment
  the program uses: literal bytes, the verbs \<^verbatim>\<open>%s\<close> and \<^verbatim>\<open>%v\<close>, the escape \<^verbatim>\<open>%%\<close>,
  a missing operand, surplus operands and a format ending in \<^verbatim>\<open>%\<close>. On any other
  directive (flags, width, other verbs) it copies the \<^verbatim>\<open>%\<close> and goes on, which is not
  what \<^verbatim>\<open>fmt\<close> prints; \<open>inFragment\<close> below says when a format has no such directive,
  and every format of the program is shown to be in the fragment.
\<close>

fun Sprintf :: "string \<Rightarrow> string list \<Rightarrow> string" where
  "Sprintf [] args = extraOperands args"
| "Sprintf (c # fmt) args =
    (if c \<noteq> CHR ''%'' then c # Sprintf fmt args
     else case fmt of
       [] \<Rightarrow> ''%!(NOVERB)'' @ extraOperands args
     | v # rest \<Rightarrow>
         if v = CHR ''%'' then CHR ''%'' # Sprintf rest args
         else if v = CHR ''s'' \<or> v = CHR ''v'' then
           (case args of
              [] \<Rightarrow> ''%!'' @ [v] @ ''(MISSING)'' @ Sprintf rest []
            | a # as \<Rightarrow> a @ Sprintf rest as)
         else c # Sprintf fmt args)"

fun inFragment :: "string \<Rightarrow> bool" where
  "inFragment [] = True"
| "inFragment (c # fmt) =
    (if c \<noteq> CHR ''%'' then inFragment fmt
     else case fmt of
       [] \<Rightarrow> True
     | v # rest \<Rightarrow> (v = CHR ''%'' \<or> v = CHR ''s'' \<or> v = CHR ''v'') \<and> inFragment rest)"

text \<open>
  \<^verbatim>\<open>strings.TrimSpace(s)\<close> removes leading and trailing white space as Unicode defines
  it (\<^verbatim>\<open>unicode.IsSpace\<close>). On the bytes of \<open>s\<close> that is: as long as \<open>s\<close> begins
  (ends) with the UTF-8 encoding of a white-space code point, that encoding is removed.
  Bytes that are not valid UTF-8 decode to the replacement rune, which is not white space,
  so trimming stops at them. The code points are U+0009 to U+000D, U+0020, U+0085, U+00A0,
  U+1680, U+2000 to U+200A, U+2028, U+2029, U+202F, U+205F and U+3000.
\<close>

definition spaceEncodings :: "string list" where
  "spaceEncodings =
    [ [CHR 0x09], [CHR 0x0A], [CHR 0x0B], [CHR 0x0C], [CHR 0x0D], [CHR 0x20],
      [CHR 0xC2, CHR 0x85], [CHR 0xC2, CHR 0xA0],
      [CHR 0xE1, CHR 0x9A, CHR 0x80],
      [CHR 0xE2, CHR 0x80, CHR 0x80], [CHR 0xE2, CHR 0x80, CHR 0x81],
      [CHR 0xE2, CHR 0x80, CHR 0x82], [CHR 0xE2, CHR 0x80, CHR 0x83],
      [CHR 0xE2, CHR 0x80, CHR 0x84], [CHR 0xE2, CHR 0x80, CHR 0x85],
      [CHR 0xE2, CHR 0x80, CHR 0x86], [CHR 0xE2, CHR 0x80, CHR 0x87],
      [CHR 0xE2, CHR 0x80, CHR 0x88], [CHR 0xE2, CHR 0x80, CHR 0x89],
      [CHR 0xE2, CHR 0x80, CHR 0x8A],
      [CHR 0xE2, CHR 0x80, CHR 0xA8], [CHR 0xE2, CHR 0x80, CHR 0xA9],
      [CHR 0xE2, CHR 0x80, CHR 0xAF], [CHR 0xE2, CHR 0x81, CHR 0x9F],
      [CHR 0xE3, CHR 0x80, CHR 0x80] ]"

text \<open>Remove from the front of \<open>s\<close> every leading occurrence of one of \<open>encs\<close>.\<close>

function dropLeading :: "string list \<Rightarrow> string \<Rightarrow> string" where
  "dropLeading encs s =
    (case find (\<lambda>e. e \<noteq> [] \<and> prefix e s) encs of
       None \<Rightarrow> s
     | Some e \<Rightarrow> dropLeading encs (drop (length e) s))"
  by pat_completeness auto
termination
proof (relation "measure (\<lambda>(encs, s). length s)")
  show "wf (measure (\<lambda>(encs, s). length s))" by simp
next
  fix encs :: "string list" and s e :: string
  assume "find (\<lambda>e. e \<noteq> [] \<and> prefix e s) encs = Some e"
  then have "e \<noteq> []" and "prefix e s"
    by (auto simp: find_Some_iff)
  then have "s \<noteq> []" by auto
  with \<open>e \<noteq> []\<close> show "((encs, drop (length e) s), (encs, s)) \<in> measure (\<lambda>(encs, s). length s)"
    by simp
qed

definition TrimLeft :: "string \<Rightarrow> string" where
  "TrimLeft s = dropLeading spaceEncodings s"

definition TrimRight :: "string \<Rightarrow> string" where
  "TrimRight s = rev (dropLeading (map rev spaceEncodings) (rev s))"

definition TrimSpace :: "string \<Rightarrow> string" where
  "TrimSpace s = TrimRight (TrimLeft s)"

section \<open>The prompt template\<close>

text \<open>
  The constant \<^verbatim>\<open>promptTemplate\<close> (a raw string literal) is the concatenation of three
  pieces of literal text around its two \<^verbatim>\<open>%s\<close> directives: the instructions, the text
  leading up to and including the opening diff marker, and the text from the closing diff
  marker on. Each piece is given line by line, the lines joined by the newline byte.
\<close>

definition tpl_head :: string where
  "tpl_head = Join
   [ ''You are an AI assistant specialized in generating concise, single-line Conventional Commit messages from git diffs.'',
     ''Your **sole task** is to produce a commit message.'',
     ''The **primary and strongly preferred output** is a single line adhering to this exact format:'',
     ''<emoji> <type>(<scope>): <short description>'',
     ''e.g., '' @ [CHR 0xF0, CHR 0x9F, CHR 0x90, CHR 0x9B] @ '' fix(parser): Correct off-by-one error in tokenization'',
     [],
     ''**Body and Footer (AVOID unless absolutely CRITICAL):**'',
     ''*   Only include a body or footer if the changes are exceptionally complex AND a single subject line is **demonstrably insufficient** to convey a **vital aspect** (e.g., a significant BREAKING CHANGE that cannot be summarized or hinted at, or an essential issue link).'',
     ''*   **Your default behavior must be to summarize everything into the single subject line.**'',
     ''*   If unavoidable, separate the body/footer with blank lines as per the specification.'',
     [],
     ''Available types and their emojis (choose one for the subject line):'',
     ''- feat: '' @ [CHR 0xE2, CHR 0x9C, CHR 0xA8] @ '' (A new feature)'',
     ''- fix: '' @ [CHR 0xF0, CHR 0x9F, CHR 0x90, CHR 0x9B] @ '' (A bug fix)'',
     ''- docs: '' @ [CHR 0xF0, CHR 0x9F, CHR 0x93, CHR 0x9A] @ '' (Documentation only changes)'',
     ''- style: '' @ [CHR 0xF0, CHR 0x9F, CHR 0x92, CHR 0x8E] @ '' (Changes that do not affect the meaning of the code)'',
     ''- refactor: '' @ [CHR 0xE2, CHR 0x99, CHR 0xBB, CHR 0xEF, CHR 0xB8, CHR 0x8F] @ '' (Code change that neither fixes a bug nor adds a feature)'',
     ''- perf: '' @ [CHR 0xE2, CHR 0x9A, CHR 0xA1, CHR 0xEF, CHR 0xB8, CHR 0x8F] @ '' (Code change that improves performance)'',
     ''- test: '' @ [CHR 0xE2, CHR 0x9C, CHR 0x85] @ '' (Adding or correcting tests)'',
     ''- build: '' @ [CHR 0xF0, CHR 0x9F, CHR 0x93, CHR 0xA6] @ '' (Changes to build system or external dependencies)'',
     ''- ci: '' @ [CHR 0xE2, CHR 0x9A, CHR 0x99, CHR 0xEF, CHR 0xB8, CHR 0x8F] @ '' (Changes to CI configuration)'',
     ''- chore: '' @ [CHR 0xF0, CHR 0x9F, CHR 0xA7, CHR 0xB9] @ '' (Other changes not modifying src or test files)'',
     ''- revert: '' @ [CHR 0xE2, CHR 0x8F, CHR 0xAA] @ '' (Reverts a previous commit)'',
     [],
     ''Guidelines for the **single subject line**:'',
     ''1.  **Summarize the Core Change**: Identify the primary purpose/goal of the entire diff.'',
     ''2.  **Imperative Mood**: Start with a verb (e.g., '' @ [CHR 0x27] @ ''Add'' @ [CHR 0x27] @ '', '' @ [CHR 0x27] @ ''Fix'' @ [CHR 0x27] @ '', '' @ [CHR 0x27] @ ''Update'' @ [CHR 0x27] @ '', '' @ [CHR 0x27] @ ''Refactor'' @ [CHR 0x27] @ '').'',
     ''3.  **Conciseness**: Aim for 50-72 characters. Be brief but informative.'',
     ''4.  **No Period**: Do not end the subject line with a period.'',
     ''5.  **Scope (Optional)**: If applicable, a noun describing the affected area (e.g., '' @ [CHR 0x27] @ ''api'' @ [CHR 0x27] @ '', '' @ [CHR 0x27] @ ''ui'' @ [CHR 0x27] @ '', '' @ [CHR 0x27] @ ''auth'' @ [CHR 0x27] @ '').'',
     ''6.  **Emoji & Type**: Select the most fitting type and its emoji.'',
     ''7.  **Focus**: Prioritize the overall *intent* and *impact*, not granular file-by-file details. Distill the essence of the changes.'' ]
   [CHR 0x0A]"

definition tpl_mid :: string where
  "tpl_mid = Join
   [ [],
     ''Here is the git diff of the changes:'',
     [CHR 0x5C, CHR 0x5C, CHR 0x5C] @ '' diff'',
     [] ]
   [CHR 0x0A]"

definition tpl_tail :: string where
  "tpl_tail = Join
   [ [],
     [CHR 0x5C, CHR 0x5C, CHR 0x5C] @ '' diff'',
     ''Based ONLY on the diff provided, generate the commit message.'',
     ''**Your response should be ONLY the commit message itself, with NO additional text, explanation, or markdown formatting surrounding it.**'',
     ''**Strive for a single line. Every time.**'' ]
   [CHR 0x0A]"

definition promptTemplate :: string where
  "promptTemplate = tpl_head @ ''%s'' @ tpl_mid @ ''%s'' @ tpl_tail"

text \<open>The marker line that the template puts before and after the diff.\<close>

definition diffMarker :: string where
  "diffMarker = [CHR 0x5C, CHR 0x5C, CHR 0x5C] @ '' diff''"

text \<open>The raw string literal that \<^verbatim>\<open>main\<close> formats the hint with.\<close>

definition hintFormat :: string where
  "hintFormat =
    ''User-provided hint/context for this commit: %s'' @ [CHR 0x0A] @
    ''Please take this hint into account when generating the commit message.'' @ [CHR 0x0A]"


section \<open>The progress indicator\<close>

definition spinnerChars :: "string list" where
  "spinnerChars =
    [ [CHR 0xE2, CHR 0xA0, CHR 0x8B], [CHR 0xE2, CHR 0xA0, CHR 0x99],
      [CHR 0xE2, CHR 0xA0, CHR 0xB9], [CHR 0xE2, CHR 0xA0, CHR 0xB8],
      [CHR 0xE2, CHR 0xA0, CHR 0xBC], [CHR 0xE2, CHR 0xA0, CHR 0xB4],
      [CHR 0xE2, CHR 0xA0, CHR 0xA6], [CHR 0xE2, CHR 0xA0, CHR 0xA7],
      [CHR 0xE2, CHR 0xA0, CHR 0x87], [CHR 0xE2, CHR 0xA0, CHR 0x8F] ]"

text \<open>
  One pass through the \<^verbatim>\<open>select\<close> of \<^verbatim>\<open>showSpinner\<close> takes one of its two cases: the
  context is done, or the ticker has fired. Which one is the scheduler's choice, so the
  function takes the sequence of choices as an argument.
\<close>

datatype selected = Done | Tick

text \<open>What the two cases and the statement before the loop write to the error stream.\<close>

definition eraseLine :: "string \<Rightarrow> string" where
  "eraseLine message =
    Sprintf ([CHR 0x0D] @ ''%s'' @ [CHR 0x0D]) [Repeat '' '' (length message + 1 + 1)]"

definition frame :: "string \<Rightarrow> nat \<Rightarrow> string" where
  "frame message i = Sprintf ([CHR 0x0D] @ ''%s %s'') [message, spinnerChars ! i]"

definition firstFrame :: "string \<Rightarrow> string" where
  "firstFrame message = Sprintf ''%s %s'' [message, spinnerChars ! 0]"

text \<open>
  The loop of \<^verbatim>\<open>showSpinner\<close> with glyph index \<open>i\<close>: the writes it makes, in order, and
  whether it has returned. When the choices run out the loop is still blocked in its
  \<^verbatim>\<open>select\<close> and has not returned.
\<close>

fun spinLoop :: "string \<Rightarrow> nat \<Rightarrow> selected list \<Rightarrow> string list \<times> bool" where
  "spinLoop message i [] = ([], False)"
| "spinLoop message i (Done # evs) = ([eraseLine message], True)"
| "spinLoop message i (Tick # evs) =
    (let i' = (i + 1) mod length spinnerChars;
         (ws, returned) = spinLoop message i' evs
     in (frame message i' # ws, returned))"

definition showSpinner :: "string \<Rightarrow> selected list \<Rightarrow> string list \<times> bool" where
  "showSpinner message evs =
    (let (ws, returned) = spinLoop message 0 evs
     in (firstFrame message # ws, returned))"

text \<open>
  Terminal cells that a byte string takes at most when it is well-formed UTF-8: a byte
  below \<open>0x80\<close> is one character of one cell, a continuation byte (\<open>0x80\<close> to \<open>0xBF\<close>)
  belongs to the character begun before it, the lead byte of a two-byte sequence begins a
  character of one cell, and the lead byte of a longer sequence begins a character of at
  most two cells (wide characters and emoji).
\<close>

definition cellsOf :: "char \<Rightarrow> nat" where
  "cellsOf c =
    (let b = of_char c :: nat
     in if b < 0x80 then 1 else if b < 0xC0 then 0 else if b < 0xE0 then 1 else 2)"

definition cells :: "string \<Rightarrow> nat" where
  "cells s = sum_list (map cellsOf s)"

text \<open>
  The number of characters of a well-formed UTF-8 string (\<^verbatim>\<open>utf8.RuneCountInString\<close>):
  every byte that is not a continuation byte begins one.
\<close>

definition runeCount :: "string \<Rightarrow> nat" where
  "runeCount s = length (filter (\<lambda>c. \<not> (0x80 \<le> (of_char c :: nat) \<and> (of_char c :: nat) < 0xC0)) s)"

section \<open>The program\<close>

definition geminiModel :: string where
  "geminiModel = ''gemini-2.5-flash-preview-05-20''"

definition spinnerMessage :: string where
  "spinnerMessage = Sprintf ([CHR 0xF0, CHR 0x9F, CHR 0xA4, CHR 0x96] @ '' %s'') [geminiModel]"

text \<open>
  What a run depends on outside the program: the environment, the command line, the
  \<^verbatim>\<open>git\<close> executable, the generation SDK, the clock and the scheduler.
  \<^item> \<open>environ\<close>: the environment variables; \<^verbatim>\<open>os.Getenv\<close> gives the empty string for a
    variable that is not set.
  \<^item> \<open>osArgs\<close>: \<^verbatim>\<open>os.Args\<close>, the program name first.
  \<^item> \<open>cmdOutput\<close>: \<^verbatim>\<open>exec.Command(name, args...).Output()\<close>, the error (its text) or the
    bytes of standard output; the program never reads the output of a failed command.
  \<^item> \<open>newClient\<close>: the error of \<^verbatim>\<open>genai.NewClient\<close> for an API key, if any.
  \<^item> \<open>generateContent\<close>: \<^verbatim>\<open>client.Models.GenerateContent\<close> for a model and a prompt,
    the error or the \<^verbatim>\<open>Text()\<close> of the result.
  \<^item> \<open>logPrefix\<close>: the date and time that the standard logger puts before a message.
  \<^item> \<open>ticks\<close>: how many times the spinner's \<^verbatim>\<open>select\<close> took the ticker before it took
    the cancellation.
\<close>

record world =
  environ :: "string \<Rightarrow> string option"
  osArgs :: "string list"
  cmdOutput :: "string \<Rightarrow> string list \<Rightarrow> string + string"
  newClient :: "string \<Rightarrow> string option"
  generateContent :: "string \<Rightarrow> string \<Rightarrow> string + string"
  logPrefix :: string
  ticks :: nat

definition Getenv :: "world \<Rightarrow> string \<Rightarrow> string" where
  "Getenv w key = (case environ w key of None \<Rightarrow> [] | Some v \<Rightarrow> v)"

text \<open>The calls a run makes to its collaborators.\<close>

datatype call =
    Exec string "string list"
  | NewClient string
  | GenerateContent string string

text \<open>
  What a run leaves behind: the collaborator calls in order, the prompt if
  \<^verbatim>\<open>promptText\<close> was assigned, the bytes written to the two streams and the exit status.
\<close>

record run =
  calls :: "call list"
  prompt :: "string option"
  stdout :: string
  stderr :: string
  exitStatus :: nat

text \<open>
  \<^verbatim>\<open>log.Fatal\<close> and \<^verbatim>\<open>log.Fatalf\<close> with the formatted message: the standard logger
  writes its prefix and the message to the error stream, adds a newline unless the message
  ends in one, and the process exits with status 1.
\<close>

definition logLine :: "world \<Rightarrow> string \<Rightarrow> string" where
  "logLine w msg =
    logPrefix w @ (if msg = [] \<or> last msg \<noteq> CHR 0x0A then msg @ [CHR 0x0A] else msg)"

definition logFatal :: "world \<Rightarrow> run \<Rightarrow> string \<Rightarrow> run" where
  "logFatal w r msg = r\<lparr> stderr := stderr r @ logLine w msg, exitStatus := 1 \<rparr>"

definition revParseArgs :: "string list" where
  "revParseArgs = [''rev-parse'', ''--is-inside-work-tree'']"

definition diffArgs :: "string list" where
  "diffArgs = [''diff'', ''--staged'', ''--patch'', ''--unified=5'']"

text \<open>
  The value that \<^verbatim>\<open>main\<close> gives \<^verbatim>\<open>additionalContext\<close> from \<^verbatim>\<open>os.Args\<close>: empty, or a
  newline and the formatted hint when there is an argument after the program name.
\<close>

definition additionalContextOf :: "string list \<Rightarrow> string" where
  "additionalContextOf args =
    (if length args > 1 then
       (let input = Join (drop 1 args) '' ''
        in [CHR 0x0A] @ Sprintf hintFormat [input])
     else [])"

text \<open>
  \<^verbatim>\<open>main\<close>. The spinner runs in its own goroutine while \<^verbatim>\<open>GenerateContent\<close> blocks;
  \<^verbatim>\<open>main\<close> writes nothing in that time and goes on only after \<^verbatim>\<open>wg.Wait()\<close>, so the
  error stream holds the spinner's writes and then whatever \<^verbatim>\<open>main\<close> writes. The
  interleaving itself is the subject of the next section, and
  \<open>schedule_gives_main_streams\<close> shows that every complete schedule leaves on the streams
  what is written here.
\<close>

definition main :: "world \<Rightarrow> run" where
  "main w =
    (let r0 = \<lparr> calls = [], prompt = None, stdout = [], stderr = [], exitStatus = 0 \<rparr>;
         geminiApiKey = Getenv w ''GEMINI_API_KEY''
     in
     if geminiApiKey = [] then
       logFatal w r0 ''GEMINI_API_KEY environment variable is not set.''
     else
     (let additionalContext = additionalContextOf (osArgs w);
         r1 = r0\<lparr> calls := calls r0 @ [Exec ''git'' revParseArgs] \<rparr>
     in
     (case cmdOutput w ''git'' revParseArgs of
       Inl err \<Rightarrow> logFatal w r1 (Sprintf ''Error checking git repository status: %v'' [err])
     | Inr insideGitRepoOutput \<Rightarrow>
     if TrimSpace insideGitRepoOutput \<noteq> ''true'' then
       logFatal w r1 ''Not inside a git repository.''
     else
     (let r2 = r1\<lparr> calls := calls r1 @ [Exec ''git'' diffArgs] \<rparr>
     in
     (case cmdOutput w ''git'' diffArgs of
       Inl err \<Rightarrow> logFatal w r2 (Sprintf ''Error getting staged diff: %v'' [err])
     | Inr stagedDiff \<Rightarrow>
     if length stagedDiff = 0 then
       logFatal w r2 ''No staged files to commit.''
     else
     (let promptText = Sprintf promptTemplate [additionalContext, stagedDiff];
         r3 = r2\<lparr> prompt := Some promptText, calls := calls r2 @ [NewClient geminiApiKey] \<rparr>
     in
     (case newClient w geminiApiKey of
       Some err \<Rightarrow> logFatal w r3 (Sprintf ''Error creating client: %v'' [err])
     | None \<Rightarrow>
     (let r4 = r3\<lparr> calls := calls r3 @ [GenerateContent geminiModel promptText] \<rparr>;
         result = generateContent w geminiModel promptText;
         r5 = r4\<lparr> stderr := stderr r4 @
                concat (fst (showSpinner spinnerMessage (replicate (ticks w) Tick @ [Done]))) \<rparr>
     in
     (case result of
       Inl err \<Rightarrow> logFatal w r5 (Sprintf ''Error generating commit message : %v'' [err])
     | Inr text \<Rightarrow> r5\<lparr> stdout := stdout r5 @ text @ [CHR 0x0A] \<rparr>)))))))))"


section \<open>The two tasks between the start of the spinner and the end of the run\<close>

text \<open>
  From the \<^verbatim>\<open>go\<close> statement on there are two tasks: \<^verbatim>\<open>main\<close>, which calls
  \<^verbatim>\<open>GenerateContent\<close>, then \<^verbatim>\<open>cancelSpinner()\<close>, then \<^verbatim>\<open>wg.Wait()\<close>, and then reports;
  and the goroutine, which runs \<^verbatim>\<open>showSpinner\<close> and then its deferred \<^verbatim>\<open>wg.Done()\<close>.
  Each task is at one of its program points; the shared state is the cancellation of the
  spinner's context and the counter of the wait group. The streams record who wrote what.
\<close>

datatype mainAt = Generating | Cancelling | Waiting | Reporting | Exited

datatype spinAt = Starting | Selecting nat | Returning | Finished

datatype task = MainTask | SpinnerTask

record tasks =
  mainAt :: mainAt
  spinAt :: spinAt
  cancelled :: bool
  waitCount :: nat
  errWrites :: "(task \<times> string) list"
  outWrites :: "string list"

text \<open>
  The state right after the \<^verbatim>\<open>go\<close> statement: \<^verbatim>\<open>wg.Add(1)\<close> has run, the goroutine
  has not started \<^verbatim>\<open>showSpinner\<close> yet.
\<close>

definition spawned :: tasks where
  "spawned =
    \<lparr> mainAt = Generating, spinAt = Starting, cancelled = False, waitCount = 1,
      errWrites = [], outWrites = [] \<rparr>"

text \<open>
  A schedule is a sequence of moves: the next statement of \<^verbatim>\<open>main\<close>, or the next statement
  of the spinner, which in its \<^verbatim>\<open>select\<close> takes the given case. A move of a task that is
  blocked or has ended is not possible: \<^verbatim>\<open>wg.Wait()\<close> blocks while the counter is not
  zero, and the \<^verbatim>\<open>ctx.Done()\<close> case cannot be taken before the context is cancelled. The
  ticker case is taken to be always possible, which allows every timing.
\<close>

datatype move = MainMove | SpinnerMove selected

definition step :: "world \<Rightarrow> string + string \<Rightarrow> move \<Rightarrow> tasks \<Rightarrow> tasks option" where
  "step w result mv s =
    (case mv of
       MainMove \<Rightarrow>
         (case mainAt s of
            Generating \<Rightarrow> Some (s\<lparr> mainAt := Cancelling \<rparr>)
          | Cancelling \<Rightarrow> Some (s\<lparr> mainAt := Waiting, cancelled := True \<rparr>)
          | Waiting \<Rightarrow> if waitCount s = 0 then Some (s\<lparr> mainAt := Reporting \<rparr>) else None
          | Reporting \<Rightarrow>
              (case result of
                 Inl err \<Rightarrow>
                   Some (s\<lparr> mainAt := Exited,
                           errWrites := errWrites s @
                             [(MainTask, logLine w
                                (Sprintf ''Error generating commit message : %v'' [err]))] \<rparr>)
               | Inr text \<Rightarrow>
                   Some (s\<lparr> mainAt := Exited,
                           outWrites := outWrites s @ [text @ [CHR 0x0A]] \<rparr>))
          | Exited \<Rightarrow> None)
     | SpinnerMove sel \<Rightarrow>
         (case spinAt s of
            Starting \<Rightarrow>
              Some (s\<lparr> spinAt := Selecting 0,
                      errWrites := errWrites s @ [(SpinnerTask, firstFrame spinnerMessage)] \<rparr>)
          | Selecting i \<Rightarrow>
              (case sel of
                 Tick \<Rightarrow>
                   (let i' = (i + 1) mod length spinnerChars
                    in Some (s\<lparr> spinAt := Selecting i',
                               errWrites := errWrites s @
                                 [(SpinnerTask, frame spinnerMessage i')] \<rparr>))
               | Done \<Rightarrow>
                   if cancelled s then
                     Some (s\<lparr> spinAt := Returning,
                             errWrites := errWrites s @
                               [(SpinnerTask, eraseLine spinnerMessage)] \<rparr>)
                   else None)
          | Returning \<Rightarrow> Some (s\<lparr> spinAt := Finished, waitCount := waitCount s - 1 \<rparr>)
          | Finished \<Rightarrow> None))"

fun exec :: "world \<Rightarrow> string + string \<Rightarrow> move list \<Rightarrow> tasks \<Rightarrow> tasks option" where
  "exec w result [] s = Some s"
| "exec w result (mv # mvs) s =
    (case step w result mv s of
       None \<Rightarrow> None
     | Some s' \<Rightarrow> exec w result mvs s')"


text \<open>
  What holds in every state that a schedule reaches from \<open>spawned\<close>: the counter is zero
  exactly when the goroutine has ended; the context is cancelled exactly when \<^verbatim>\<open>main\<close> is
  past \<^verbatim>\<open>cancelSpinner()\<close>; the spinner leaves its loop only after the cancellation;
  \<^verbatim>\<open>main\<close> is past \<^verbatim>\<open>wg.Wait()\<close> only when the goroutine has ended; and until \<^verbatim>\<open>main\<close>
  reports, nothing is on standard output, the error stream holds writes of the spinner
  only, and once the spinner has left its loop the last of them is the erasure.
\<close>

definition invariant :: "tasks \<Rightarrow> bool" where
  "invariant s \<longleftrightarrow>
     waitCount s = (if spinAt s = Finished then 0 else 1) \<and>
     cancelled s = (mainAt s = Waiting \<or> mainAt s = Reporting \<or> mainAt s = Exited) \<and>
     (spinAt s = Returning \<or> spinAt s = Finished \<longrightarrow> cancelled s) \<and>
     (mainAt s = Reporting \<or> mainAt s = Exited \<longrightarrow> spinAt s = Finished) \<and>
     (mainAt s \<noteq> Exited \<longrightarrow>
        outWrites s = [] \<and>
        (\<forall>x \<in> set (errWrites s). fst x = SpinnerTask) \<and>
        (spinAt s = Starting \<longrightarrow> errWrites s = []) \<and>
        (spinAt s = Returning \<or> spinAt s = Finished \<longrightarrow>
           errWrites s \<noteq> [] \<and>
           last (errWrites s) = (SpinnerTask, eraseLine spinnerMessage)))"

text \<open>
  To compare the schedules with what \<open>main\<close> puts on the streams: the spinner's writes on
  the error stream, the frames that \<^verbatim>\<open>showSpinner\<close> has written after \<open>n\<close> ticks, what
  \<^verbatim>\<open>main\<close> writes when it reports, and what the spinner must have written at each of its
  program points.
\<close>

definition spinnerWrites :: "tasks \<Rightarrow> string list" where
  "spinnerWrites s = map snd (filter (\<lambda>x. fst x = SpinnerTask) (errWrites s))"

definition framesUpTo :: "nat \<Rightarrow> string list" where
  "framesUpTo n =
    firstFrame spinnerMessage #
    map (\<lambda>k. frame spinnerMessage (k mod length spinnerChars)) [1..<Suc n]"

definition reportOf :: "world \<Rightarrow> string + string \<Rightarrow> (task \<times> string) list" where
  "reportOf w result =
    (case result of
       Inl err \<Rightarrow>
         [(MainTask, logLine w (Sprintf ''Error generating commit message : %v'' [err]))]
     | Inr text \<Rightarrow> [])"

definition printedOf :: "string + string \<Rightarrow> string list" where
  "printedOf result = (case result of Inl err \<Rightarrow> [] | Inr text \<Rightarrow> [text @ [CHR 0x0A]])"

fun shown :: "spinAt \<Rightarrow> string list \<Rightarrow> bool" where
  "shown Starting ws \<longleftrightarrow> ws = []"
| "shown (Selecting i) ws \<longleftrightarrow>
     (\<exists>n. i = n mod length spinnerChars \<and> ws = framesUpTo n)"
| "shown Returning ws \<longleftrightarrow> (\<exists>n. ws = framesUpTo n @ [eraseLine spinnerMessage])"
| "shown Finished ws \<longleftrightarrow> (\<exists>n. ws = framesUpTo n @ [eraseLine spinnerMessage])"

definition progress :: "world \<Rightarrow> string + string \<Rightarrow> tasks \<Rightarrow> bool" where
  "progress w result s \<longleftrightarrow>
     errWrites s =
       map (Pair SpinnerTask) (spinnerWrites s) @
       (if mainAt s = Exited then reportOf w result else []) \<and>
     outWrites s = (if mainAt s = Exited then printedOf result else []) \<and>
     shown (spinAt s) (spinnerWrites s)"

text \<open>
  A schedule in which the spinner shows three frames, is cancelled while it waits in its
  \<^verbatim>\<open>select\<close>, erases its line and ends, and \<^verbatim>\<open>main\<close> passes the wait.
\<close>

definition demoSchedule :: "move list" where
  "demoSchedule =
    [SpinnerMove Tick, MainMove, SpinnerMove Tick, MainMove, SpinnerMove Tick,
     SpinnerMove Done, SpinnerMove Done, MainMove]"

section \<open>Notions of the specification\<close>

text \<open>
  The sentence that opens a hint paragraph, and the hint paragraph around a hint text as
  the specification describes it: the hint wrapped in an explanatory sentence, as an extra
  paragraph of instructions.
\<close>

definition hintLead :: string where
  "hintLead = ''User-provided hint/context for this commit: ''"

definition hintParagraph :: "string \<Rightarrow> string" where
  "hintParagraph hint =
    [CHR 0x0A] @ hintLead @ hint @ [CHR 0x0A] @
    ''Please take this hint into account when generating the commit message.'' @ [CHR 0x0A]"

text \<open>
  How many times a non-empty pattern occurs in a string, counted by the positions at which
  an occurrence begins.
\<close>

fun occurrences :: "string \<Rightarrow> string \<Rightarrow> nat" where
  "occurrences pat [] = 0"
| "occurrences pat (c # cs) = (if prefix pat (c # cs) then 1 else 0) + occurrences pat cs"

text \<open>
  End-to-end scenario A of the specification: the credential is set, the directory is
  inside a repository, the staged diff is \<^verbatim>\<open>+foo\n-bar\n\<close>, there are no arguments and the
  generation client returns a commit message. The other scenarios change one field of it.
\<close>

definition scenarioA :: world where
  "scenarioA =
    \<lparr> environ = [''GEMINI_API_KEY'' \<mapsto> ''secret''],
      osArgs = [''ai-commit''],
      cmdOutput = (\<lambda>name args.
        if name = ''git'' \<and> args = revParseArgs then Inr (''true'' @ [CHR 0x0A])
        else if name = ''git'' \<and> args = diffArgs then
          Inr (''+foo'' @ [CHR 0x0A] @ ''-bar'' @ [CHR 0x0A])
        else Inl ''exit status 1''),
      newClient = (\<lambda>key. None),
      generateContent = (\<lambda>model p.
        Inr ([CHR 0xE2, CHR 0x9C, CHR 0xA8] @ '' feat(core): add foo'')),
      logPrefix = ''2025/06/01 12:00:00 '',
      ticks = 2 \<rparr>"

text \<open>
  Scenario B: nothing is staged. Scenario C: the credential is not set. Scenario D: the
  generation client returns an error.
\<close>

definition scenarioB :: world where
  "scenarioB =
    scenarioA\<lparr> cmdOutput := (\<lambda>name args.
      if name = ''git'' \<and> args = revParseArgs then Inr (''true'' @ [CHR 0x0A])
      else if name = ''git'' \<and> args = diffArgs then Inr []
      else Inl ''exit status 1'') \<rparr>"

definition scenarioC :: world where
  "scenarioC = scenarioA\<lparr> environ := Map.empty \<rparr>"

definition scenarioD :: world where
  "scenarioD = scenarioA\<lparr> generateContent := (\<lambda>model p. Inl ''quota exceeded'') \<rparr>"

text \<open>
  Scenario A with a hint on the command line, with a single empty argument, and in a
  directory where \<^verbatim>\<open>git rev-parse --is-inside-work-tree\<close> succeeds and prints
  \<^verbatim>\<open>false\<close> (as it does inside the \<^verbatim>\<open>.git\<close> directory).
\<close>

definition scenarioHint :: world where
  "scenarioHint = scenarioA\<lparr> osArgs := [''ai-commit'', ''fix the'', ''parser''] \<rparr>"

definition scenarioEmptyArg :: world where
  "scenarioEmptyArg = scenarioA\<lparr> osArgs := [''ai-commit'', []] \<rparr>"

definition scenarioNotRepo :: world where
  "scenarioNotRepo =
    scenarioA\<lparr> cmdOutput := (\<lambda>name args.
      if name = ''git'' \<and> args = revParseArgs then Inr (''false'' @ [CHR 0x0A])
      else cmdOutput scenarioA name args) \<rparr>"

text \<open>
  Scenario A with one argument of three lines: a first hint, the closing sentence of a
  hint paragraph, an empty line, and the hint sentence with a second hint. Around it the
  program's hint paragraph reads as two hint paragraphs.
\<close>

definition hintTwice :: string where
  "hintTwice =
    ''a'' @ [CHR 0x0A] @
    ''Please take this hint into account when generating the commit message.'' @
    [CHR 0x0A, CHR 0x0A] @
    ''User-provided hint/context for this commit: b''"

definition scenarioTwoHints :: world where
  "scenarioTwoHints = scenarioA\<lparr> osArgs := [''ai-commit'', hintTwice] \<rparr>"

section \<open>Formatting: the formats of the program\<close>

lemma Sprintf_literal:
  "CHR ''%'' \<notin> set xs \<Longrightarrow> Sprintf (xs @ fmt) args = xs @ Sprintf fmt args"
  by (induction xs) auto

lemma inFragment_literal:
  "CHR ''%'' \<notin> set xs \<Longrightarrow> inFragment (xs @ fmt) = inFragment fmt"
  by (induction xs) auto

lemma set_Join: "set (Join ls sep) \<subseteq> (\<Union>l\<in>set ls. set l) \<union> set sep"
  by (induction ls sep rule: Join.induct) auto

lemma notin_Join:
  "c \<notin> (\<Union>l\<in>set ls. set l) \<union> set sep \<Longrightarrow> c \<notin> set (Join ls sep)"
  using set_Join [of ls sep] by blast

lemma head_plain: "CHR ''%'' \<notin> set tpl_head"
  unfolding tpl_head_def by (rule notin_Join) simp

lemma mid_plain: "CHR ''%'' \<notin> set tpl_mid"
  unfolding tpl_mid_def by (rule notin_Join) simp

lemma tail_plain: "CHR ''%'' \<notin> set tpl_tail"
  unfolding tpl_tail_def by (rule notin_Join) simp

text \<open>
  The template has exactly two directives, both \<^verbatim>\<open>%s\<close>, so formatting it with two
  operands puts the first after the instructions and the second between the diff markers.
\<close>

lemma Sprintf_promptTemplate:
  "Sprintf promptTemplate [a, d] = tpl_head @ a @ tpl_mid @ d @ tpl_tail"
proof -
  have "Sprintf tpl_tail [] = tpl_tail"
    using Sprintf_literal [OF tail_plain, of "[]" "[]"] by (simp add: extraOperands_def)
  then show ?thesis
    unfolding promptTemplate_def
    by (simp add: Sprintf_literal [OF head_plain] Sprintf_literal [OF mid_plain])
qed

lemma inFragment_promptTemplate: "inFragment promptTemplate"
proof -
  have "inFragment tpl_tail"
    using inFragment_literal [OF tail_plain, of "[]"] by simp
  then show ?thesis
    unfolding promptTemplate_def
    by (simp add: inFragment_literal [OF head_plain] inFragment_literal [OF mid_plain])
qed

text \<open>Every other format of the program is in the modelled fragment as well.\<close>

lemma inFragment_formats:
  "inFragment hintFormat"
  "inFragment ''Error checking git repository status: %v''"
  "inFragment ''Error getting staged diff: %v''"
  "inFragment ''Error creating client: %v''"
  "inFragment ''Error generating commit message : %v''"
  "inFragment ''%s %s''"
  "inFragment ([CHR 0x0D] @ ''%s %s'')"
  "inFragment ([CHR 0x0D] @ ''%s'' @ [CHR 0x0D])"
  "inFragment ([CHR 0xF0, CHR 0x9F, CHR 0xA4, CHR 0x96] @ '' %s'')"
  by (simp_all add: hintFormat_def)

lemma additionalContextOf_eq:
  "additionalContextOf args =
    (if 1 < length args then hintParagraph (Join (drop 1 args) '' '') else [])"
  by (simp add: additionalContextOf_def hintFormat_def hintParagraph_def hintLead_def
        extraOperands_def)

lemma eraseLine_eq:
  "eraseLine message = CHR 0x0D # replicate (length message + 2) CHR '' '' @ [CHR 0x0D]"
  by (simp add: eraseLine_def Repeat_def extraOperands_def)

lemma frame_eq: "frame message i = CHR 0x0D # message @ '' '' @ spinnerChars ! i"
  by (simp add: frame_def extraOperands_def)

lemma firstFrame_eq: "firstFrame message = message @ '' '' @ spinnerChars ! 0"
  by (simp add: firstFrame_def extraOperands_def)

lemma spinnerMessage_eq:
  "spinnerMessage =
    [CHR 0xF0, CHR 0x9F, CHR 0xA4, CHR 0x96] @ '' gemini-2.5-flash-preview-05-20''"
  by (simp add: spinnerMessage_def geminiModel_def extraOperands_def)

section \<open>Trimming: the outputs of the scenarios\<close>

lemma TrimSpace_true_nl: "TrimSpace (''true'' @ [CHR 0x0A]) = ''true''"
  by (simp add: TrimSpace_def TrimLeft_def TrimRight_def spaceEncodings_def)

lemma TrimSpace_false_nl: "TrimSpace (''false'' @ [CHR 0x0A]) = ''false''"
  by (simp add: TrimSpace_def TrimLeft_def TrimRight_def spaceEncodings_def)

section \<open>Occurrences of a pattern across lines\<close>

text \<open>
  A pattern without the newline byte cannot reach across a newline, so its occurrences in
  a text are those in the lines of the text.
\<close>

lemma prefix_sep:
  assumes "c \<notin> set pat"
  shows "prefix pat (zs @ c # ys) \<longleftrightarrow> prefix pat zs"
proof
  assume "prefix pat (zs @ c # ys)"
  then consider "prefix pat zs" | us where "pat = zs @ us" "prefix us (c # ys)"
    by (auto simp: prefix_append)
  then show "prefix pat zs"
  proof cases
    case 1
    then show ?thesis .
  next
    case 2
    with assms have "us = []" by (cases us) auto
    with 2 show ?thesis by simp
  qed
next
  assume "prefix pat zs"
  then show "prefix pat (zs @ c # ys)" by (rule prefix_prefix)
qed

lemma occurrences_sep:
  assumes "c \<notin> set pat" "pat \<noteq> []"
  shows "occurrences pat (xs @ c # ys) = occurrences pat xs + occurrences pat ys"
proof (induction xs)
  case Nil
  from assms have "\<not> prefix pat (c # ys)"
    using prefix_sep [OF assms(1), of "[]" ys] by simp
  then show ?case by simp
next
  case (Cons x xs)
  have "prefix pat (x # xs @ c # ys) \<longleftrightarrow> prefix pat (x # xs)"
    using prefix_sep [OF assms(1), of "x # xs" ys] by simp
  with Cons show ?case by simp
qed

lemma occurrences_Join_lines:
  assumes "c \<notin> set pat" "pat \<noteq> []"
  shows "occurrences pat (Join ls [c]) = sum_list (map (occurrences pat) ls)"
proof (induction ls rule: induct_list012)
  case 1
  show ?case by simp
next
  case (2 e)
  show ?case by simp
next
  case (3 e e' es)
  have "occurrences pat (Join (e # e' # es) [c]) =
        occurrences pat e + occurrences pat (Join (e' # es) [c])"
    using occurrences_sep [OF assms, of e "Join (e' # es) [c]"] by simp
  with 3 show ?case by simp
qed

lemma occurrences_zero: "\<not> sublist pat s \<Longrightarrow> occurrences pat s = 0"
proof (induction s)
  case Nil
  show ?case by simp
next
  case (Cons c cs)
  then have "\<not> prefix pat (c # cs)" and "\<not> sublist pat cs"
    by (auto simp: sublist_Cons_right)
  with Cons.IH show ?case by simp
qed

lemma occurrences_skip:
  assumes "u \<notin> set r'"
  shows "occurrences (u # r) (r' @ h) = occurrences (u # r) h"
  using assms by (induction r') auto

lemma occurrences_self:
  assumes "u \<notin> set r"
  shows "occurrences (u # r) ((u # r) @ h) = 1 + occurrences (u # r) h"
  using occurrences_skip [OF assms, of r h] by simp

lemma sublist_sep:
  assumes "c \<notin> set p" "p \<noteq> []"
  shows "sublist p (xs @ c # ys) \<longleftrightarrow> sublist p xs \<or> sublist p ys"
  using assms
  by (auto simp: sublist_append sublist_Cons_right prefix_Cons suffix_def)

lemma sublist_Join_lines:
  assumes "c \<notin> set p" "p \<noteq> []"
  shows "sublist p (Join ls [c]) \<longleftrightarrow> (\<exists>l\<in>set ls. sublist p l)"
proof (induction ls rule: induct_list012)
  case 1
  from assms show ?case by simp
next
  case (2 e)
  show ?case by simp
next
  case (3 e e' es)
  have "sublist p (Join (e # e' # es) [c]) \<longleftrightarrow>
        sublist p e \<or> sublist p (Join (e' # es) [c])"
    using sublist_sep [OF assms, of e "Join (e' # es) [c]"] by simp
  also have "\<dots> \<longleftrightarrow> (\<exists>l\<in>set (e # e' # es). sublist p l)"
    using 3 by simp
  finally show ?case .
qed

lemma no_Us_head: "\<not> sublist ''Us'' tpl_head"
  unfolding tpl_head_def by (subst sublist_Join_lines) (simp_all add: sublist_code)

lemma no_hintLead_head: "occurrences hintLead tpl_head = 0"
proof (rule occurrences_zero, rule notI)
  assume "sublist hintLead tpl_head"
  moreover have "sublist ''Us'' hintLead"
    by (simp add: hintLead_def sublist_code)
  ultimately have "sublist ''Us'' tpl_head"
    by (rule sublist_order.order_trans [rotated])
  with no_Us_head show False ..
qed

lemma no_marker_head: "occurrences diffMarker tpl_head = 0"
proof (rule occurrences_zero, rule notI)
  assume "sublist diffMarker tpl_head"
  then have "set diffMarker \<subseteq> set tpl_head"
    by (rule set_mono_sublist)
  moreover have "CHR 0x5C \<notin> set tpl_head"
    unfolding tpl_head_def by (rule notin_Join) simp
  ultimately show False
    by (auto simp: diffMarker_def)
qed

lemma tpl_mid_shape:
  "tpl_mid = CHR 0x0A # ''Here is the git diff of the changes:'' @ CHR 0x0A # diffMarker @ [CHR 0x0A]"
  by (simp add: tpl_mid_def diffMarker_def)

lemma tpl_tail_shape:
  "\<exists>closing. tpl_tail = CHR 0x0A # diffMarker @ CHR 0x0A # closing \<and>
             occurrences hintLead closing = 0"
proof (intro exI [of _ "drop 10 tpl_tail"] conjI)
  show "tpl_tail = CHR 0x0A # diffMarker @ CHR 0x0A # drop 10 tpl_tail"
    by (simp add: tpl_tail_def diffMarker_def)
  show "occurrences hintLead (drop 10 tpl_tail) = 0"
    by (rule occurrences_zero) (simp add: tpl_tail_def hintLead_def sublist_code)
qed

lemma hintLead_facts:
  "CHR 0x0A \<notin> set hintLead" "hintLead \<noteq> []"
  "occurrences hintLead ''Here is the git diff of the changes:'' = 0"
  "occurrences hintLead diffMarker = 0"
  "occurrences hintLead ''Please take this hint into account when generating the commit message.'' = 0"
  by (simp_all add: hintLead_def diffMarker_def)

lemma hintLead_self: "occurrences hintLead (hintLead @ h) = 1 + occurrences hintLead h"
proof -
  have "hintLead = CHR ''U'' # tl hintLead" and "CHR ''U'' \<notin> set (tl hintLead)"
    by (simp_all add: hintLead_def)
  then show ?thesis
    using occurrences_self [of "CHR ''U''" "tl hintLead" h] by simp
qed

text \<open>
  The fixed text of the prompt has no occurrence of the hint sentence: in a prompt it
  occurs once for the hint paragraph, if there is one, and otherwise only where the user's
  own hint or the diff contains it.
\<close>

lemma occurrences_plain_prompt:
  "occurrences hintLead (tpl_head @ tpl_mid @ d @ tpl_tail) = occurrences hintLead d"
proof -
  note sep = occurrences_sep [OF hintLead_facts(1,2)]
  from tpl_tail_shape obtain closing
    where t: "tpl_tail = CHR 0x0A # diffMarker @ CHR 0x0A # closing"
      and c: "occurrences hintLead closing = 0"
    by blast
  have "tpl_head @ tpl_mid @ d @ tpl_tail =
        tpl_head @ CHR 0x0A # ''Here is the git diff of the changes:'' @ CHR 0x0A #
        diffMarker @ CHR 0x0A # d @ CHR 0x0A # diffMarker @ CHR 0x0A # closing"
    by (simp add: tpl_mid_shape t)
  then show ?thesis
    by (simp only: sep no_hintLead_head c hintLead_facts add_0 add_0_right)
qed

lemma occurrences_hinted_prompt:
  "occurrences hintLead (tpl_head @ hintParagraph h @ tpl_mid @ d @ tpl_tail) =
   1 + occurrences hintLead h + occurrences hintLead d"
proof -
  note sep = occurrences_sep [OF hintLead_facts(1,2)]
  from tpl_tail_shape obtain closing
    where t: "tpl_tail = CHR 0x0A # diffMarker @ CHR 0x0A # closing"
      and c: "occurrences hintLead closing = 0"
    by blast
  have "tpl_head @ hintParagraph h @ tpl_mid @ d @ tpl_tail =
        tpl_head @ CHR 0x0A # (hintLead @ h) @ CHR 0x0A #
        ''Please take this hint into account when generating the commit message.'' @ CHR 0x0A #
        [] @ CHR 0x0A # ''Here is the git diff of the changes:'' @ CHR 0x0A #
        diffMarker @ CHR 0x0A # d @ CHR 0x0A # diffMarker @ CHR 0x0A # closing"
    by (simp add: tpl_mid_shape t hintParagraph_def)
  then show ?thesis
    by (simp only: sep no_hintLead_head c hintLead_facts hintLead_self
          occurrences.simps(1) add_0 add_0_right)
qed

section \<open>Fatal exits before the prompt\<close>

text \<open>
  C2. When the credential variable is unset or empty, the run ends fatally (status 1, the
  message on the error stream) and has made no call to a collaborator at all: neither the
  repository check nor the diff collection has run.
\<close>

theorem no_credential_no_git:
  assumes "environ w ''GEMINI_API_KEY'' = None \<or> environ w ''GEMINI_API_KEY'' = Some []"
  shows "exitStatus (main w) = 1 \<and> calls (main w) = [] \<and> prompt (main w) = None \<and>
         stdout (main w) = [] \<and>
         stderr (main w) = logLine w ''GEMINI_API_KEY environment variable is not set.''"
proof -
  from assms have "Getenv w ''GEMINI_API_KEY'' = []"
    by (auto simp: Getenv_def)
  then show ?thesis
    by (simp add: main_def logFatal_def)
qed

theorem no_credential_no_git_witness:
  "environ scenarioC ''GEMINI_API_KEY'' = None \<and>
   exitStatus (main scenarioC) = 1 \<and> calls (main scenarioC) = [] \<and>
   stdout (main scenarioC) = []"
  using no_credential_no_git [of scenarioC] by (simp add: scenarioC_def)

text \<open>
  C1. When the diff that \<^verbatim>\<open>git\<close> gives for the staged changes is empty, the run ends
  fatally (status 1), no prompt has been composed, and every call it has made is a command
  execution: the client was not created and the generation service was not called. When
  the run gets as far as collecting the diff, its calls are the two \<^verbatim>\<open>git\<close> commands and
  its message is the one for nothing staged.
\<close>

theorem empty_diff_fatal:
  assumes "cmdOutput w ''git'' diffArgs = Inr []"
  shows "exitStatus (main w) = 1 \<and> prompt (main w) = None \<and> stdout (main w) = [] \<and>
         (\<forall>c \<in> set (calls (main w)). \<exists>name args. c = Exec name args) \<and>
         (Getenv w ''GEMINI_API_KEY'' \<noteq> [] \<and>
          (\<exists>out. cmdOutput w ''git'' revParseArgs = Inr out \<and> TrimSpace out = ''true'') \<longrightarrow>
            calls (main w) = [Exec ''git'' revParseArgs, Exec ''git'' diffArgs] \<and>
            stderr (main w) = logLine w ''No staged files to commit.'')"
  using assms
  by (auto simp: main_def logFatal_def Let_def split: sum.splits option.splits)

theorem empty_diff_fatal_witness:
  "cmdOutput scenarioB ''git'' diffArgs = Inr [] \<and>
   Getenv scenarioB ''GEMINI_API_KEY'' \<noteq> [] \<and>
   (\<exists>out. cmdOutput scenarioB ''git'' revParseArgs = Inr out \<and> TrimSpace out = ''true'') \<and>
   exitStatus (main scenarioB) = 1 \<and> prompt (main scenarioB) = None \<and>
   stdout (main scenarioB) = [] \<and>
   calls (main scenarioB) = [Exec ''git'' revParseArgs, Exec ''git'' diffArgs] \<and>
   stderr (main scenarioB) = logLine scenarioB ''No staged files to commit.''"
proof -
  have d: "cmdOutput scenarioB ''git'' diffArgs = Inr []"
    by (simp add: scenarioB_def diffArgs_def revParseArgs_def)
  have k: "Getenv scenarioB ''GEMINI_API_KEY'' \<noteq> []"
    by (simp add: scenarioB_def scenarioA_def Getenv_def)
  have r: "\<exists>out. cmdOutput scenarioB ''git'' revParseArgs = Inr out \<and> TrimSpace out = ''true''"
    using TrimSpace_true_nl by (simp add: scenarioB_def)
  from empty_diff_fatal [OF d] d k r show ?thesis by blast
qed

section \<open>The prompt\<close>

lemma prompt_composed:
  assumes "prompt (main w) = Some p"
  shows "\<exists>d. cmdOutput w ''git'' diffArgs = Inr d \<and> d \<noteq> [] \<and>
             p = tpl_head @ additionalContextOf (osArgs w) @ tpl_mid @ d @ tpl_tail"
  using assms
  by (auto simp: main_def logFatal_def Let_def Sprintf_promptTemplate
      split: sum.splits option.splits if_splits)

lemma prompt_reached:
  assumes "Getenv w ''GEMINI_API_KEY'' \<noteq> []"
    and "cmdOutput w ''git'' revParseArgs = Inr out" and "TrimSpace out = ''true''"
    and "cmdOutput w ''git'' diffArgs = Inr d" and "d \<noteq> []"
  shows "prompt (main w) =
           Some (tpl_head @ additionalContextOf (osArgs w) @ tpl_mid @ d @ tpl_tail)"
  using assms
  by (auto simp: main_def logFatal_def Let_def Sprintf_promptTemplate
      split: sum.splits option.splits)

lemma scenarioA_facts:
  "Getenv scenarioA ''GEMINI_API_KEY'' \<noteq> []"
  "cmdOutput scenarioA ''git'' revParseArgs = Inr (''true'' @ [CHR 0x0A])"
  "cmdOutput scenarioA ''git'' diffArgs = Inr (''+foo'' @ [CHR 0x0A] @ ''-bar'' @ [CHR 0x0A])"
  "newClient scenarioA k = None"
  by (simp_all add: scenarioA_def Getenv_def revParseArgs_def diffArgs_def)

lemma between_markers:
  "\<exists>post. tpl_mid @ d @ tpl_tail =
     CHR 0x0A # ''Here is the git diff of the changes:'' @ [CHR 0x0A] @
     diffMarker @ [CHR 0x0A] @ d @ [CHR 0x0A] @ diffMarker @ post"
proof -
  from tpl_tail_shape obtain closing
    where "tpl_tail = CHR 0x0A # diffMarker @ CHR 0x0A # closing"
    by blast
  then have "tpl_mid @ d @ tpl_tail =
     CHR 0x0A # ''Here is the git diff of the changes:'' @ [CHR 0x0A] @
     diffMarker @ [CHR 0x0A] @ d @ [CHR 0x0A] @ diffMarker @ (CHR 0x0A # closing)"
    by (simp add: tpl_mid_shape)
  then show ?thesis by (rule exI)
qed

text \<open>
  C3. In a run without arguments after the program name that gets as far as the diff (the
  credential is set, the repository check has passed) and finds a non-empty diff, a prompt
  is composed, and it is the template with nothing at the hint's place and the diff at the
  diff's place: the diff text stands verbatim between the two marker lines, and the hint
  sentence occurs in the prompt exactly as often as in the diff itself, so the program has
  put no hint paragraph there.
\<close>
theorem prompt_without_arguments:
  assumes "length (osArgs w) \<le> 1"
    and "Getenv w ''GEMINI_API_KEY'' \<noteq> []"
    and "cmdOutput w ''git'' revParseArgs = Inr out" and "TrimSpace out = ''true''"
    and "cmdOutput w ''git'' diffArgs = Inr d" and "d \<noteq> []"
  shows "\<exists>p post. prompt (main w) = Some p \<and>
           p = tpl_head @ [] @ tpl_mid @ d @ tpl_tail \<and>
           p = tpl_head @ CHR 0x0A # ''Here is the git diff of the changes:'' @
               [CHR 0x0A] @ diffMarker @ [CHR 0x0A] @ d @ [CHR 0x0A] @ diffMarker @ post \<and>
           occurrences hintLead p = occurrences hintLead d"
proof -
  let ?p = "tpl_head @ tpl_mid @ d @ tpl_tail"
  from assms(1) have "additionalContextOf (osArgs w) = []"
    by (simp add: additionalContextOf_eq)
  with prompt_reached [OF assms(2-6)] have p: "prompt (main w) = Some ?p"
    by simp
  from between_markers [of d] obtain post
    where "tpl_mid @ d @ tpl_tail =
      CHR 0x0A # ''Here is the git diff of the changes:'' @ [CHR 0x0A] @
      diffMarker @ [CHR 0x0A] @ d @ [CHR 0x0A] @ diffMarker @ post"
    by blast
  then have "?p = tpl_head @ CHR 0x0A # ''Here is the git diff of the changes:'' @
      [CHR 0x0A] @ diffMarker @ [CHR 0x0A] @ d @ [CHR 0x0A] @ diffMarker @ post"
    by simp
  moreover have "occurrences hintLead ?p = occurrences hintLead d"
    by (rule occurrences_plain_prompt)
  ultimately show ?thesis using p by auto
qed

theorem prompt_without_arguments_witness:
  "length (osArgs scenarioA) \<le> 1 \<and>
   prompt (main scenarioA) =
     Some (tpl_head @ tpl_mid @ (''+foo'' @ [CHR 0x0A] @ ''-bar'' @ [CHR 0x0A]) @ tpl_tail) \<and>
   occurrences hintLead
     (tpl_head @ tpl_mid @ (''+foo'' @ [CHR 0x0A] @ ''-bar'' @ [CHR 0x0A]) @ tpl_tail) = 0"
proof -
  have a: "length (osArgs scenarioA) \<le> 1"
    by (simp add: scenarioA_def)
  have n: "''+foo'' @ [CHR 0x0A] @ ''-bar'' @ [CHR 0x0A] \<noteq> []"
    by simp
  have "occurrences hintLead (''+foo'' @ [CHR 0x0A] @ ''-bar'' @ [CHR 0x0A]) = 0"
    by (simp add: hintLead_def)
  with prompt_without_arguments
    [OF a scenarioA_facts(1,2) TrimSpace_true_nl scenarioA_facts(3) n] a
  show ?thesis by auto
qed

lemma run_through:
  assumes "Getenv w ''GEMINI_API_KEY'' \<noteq> []"
    and "cmdOutput w ''git'' revParseArgs = Inr out" and "TrimSpace out = ''true''"
    and "cmdOutput w ''git'' diffArgs = Inr d" and "d \<noteq> []"
    and "newClient w (Getenv w ''GEMINI_API_KEY'') = None"
  shows "calls (main w) =
           [Exec ''git'' revParseArgs, Exec ''git'' diffArgs,
            NewClient (Getenv w ''GEMINI_API_KEY''),
            GenerateContent geminiModel
              (tpl_head @ additionalContextOf (osArgs w) @ tpl_mid @ d @ tpl_tail)]"
    and "exitStatus (main w) =
           (case generateContent w geminiModel
              (tpl_head @ additionalContextOf (osArgs w) @ tpl_mid @ d @ tpl_tail) of
              Inl err \<Rightarrow> 1 | Inr text \<Rightarrow> 0)"
  using assms
  by (auto simp: main_def logFatal_def Let_def Sprintf_promptTemplate
      split: sum.splits option.splits)

lemma Join_nonempty: "Join (drop 1 args) sep \<noteq> [] \<Longrightarrow> 1 < length args"
  by (cases args; cases "tl args") auto

text \<open>
  C4. In a run whose arguments after the program name, joined by single spaces, give a
  non-empty text, and which finds a non-empty diff, a prompt is composed: it has the hint
  paragraph that the program builds around that text, verbatim, right after the
  instructions and before the first diff marker (the instructions before it contain no
  marker). The hint is not inspected, so the number of hint paragraphs that the prompt
  shows is not always one: the hint sentence occurs once for the program's paragraph and
  besides that exactly as often as the hint and the diff contain it. When neither contains
  it, the prompt has exactly one hint paragraph.
\<close>
theorem prompt_with_hint:
  assumes "Join (drop 1 (osArgs w)) '' '' \<noteq> []"
    and "Getenv w ''GEMINI_API_KEY'' \<noteq> []"
    and "cmdOutput w ''git'' revParseArgs = Inr out" and "TrimSpace out = ''true''"
    and "cmdOutput w ''git'' diffArgs = Inr d" and "d \<noteq> []"
  shows "\<exists>p post. prompt (main w) = Some p \<and>
           p = tpl_head @ hintParagraph (Join (drop 1 (osArgs w)) '' '') @
               CHR 0x0A # ''Here is the git diff of the changes:'' @ [CHR 0x0A] @
               diffMarker @ [CHR 0x0A] @ d @ [CHR 0x0A] @ diffMarker @ post \<and>
           occurrences hintLead p =
             1 + occurrences hintLead (Join (drop 1 (osArgs w)) '' '') +
             occurrences hintLead d \<and>
           (occurrences hintLead (Join (drop 1 (osArgs w)) '' '') = 0 \<and>
            occurrences hintLead d = 0 \<longrightarrow> occurrences hintLead p = 1) \<and>
           occurrences diffMarker tpl_head = 0"
proof -
  let ?h = "Join (drop 1 (osArgs w)) '' ''"
  let ?p = "tpl_head @ hintParagraph ?h @ tpl_mid @ d @ tpl_tail"
  from Join_nonempty [OF assms(1)] have "additionalContextOf (osArgs w) = hintParagraph ?h"
    by (simp add: additionalContextOf_eq)
  with prompt_reached [OF assms(2-6)] have p: "prompt (main w) = Some ?p"
    by simp
  from between_markers [of d] obtain post
    where "tpl_mid @ d @ tpl_tail =
      CHR 0x0A # ''Here is the git diff of the changes:'' @ [CHR 0x0A] @
      diffMarker @ [CHR 0x0A] @ d @ [CHR 0x0A] @ diffMarker @ post"
    by blast
  then have "?p = tpl_head @ hintParagraph ?h @
      CHR 0x0A # ''Here is the git diff of the changes:'' @ [CHR 0x0A] @
      diffMarker @ [CHR 0x0A] @ d @ [CHR 0x0A] @ diffMarker @ post"
    by simp
  moreover have o: "occurrences hintLead ?p =
      1 + occurrences hintLead ?h + occurrences hintLead d"
    by (rule occurrences_hinted_prompt)
  moreover from o have "occurrences hintLead ?h = 0 \<and> occurrences hintLead d = 0 \<longrightarrow>
      occurrences hintLead ?p = 1"
    by simp
  ultimately show ?thesis using p no_marker_head by blast
qed

lemma scenarioHint_facts:
  "Getenv scenarioHint ''GEMINI_API_KEY'' \<noteq> []"
  "cmdOutput scenarioHint ''git'' revParseArgs = Inr (''true'' @ [CHR 0x0A])"
  "cmdOutput scenarioHint ''git'' diffArgs = Inr (''+foo'' @ [CHR 0x0A] @ ''-bar'' @ [CHR 0x0A])"
  "Join (drop 1 (osArgs scenarioHint)) '' '' = ''fix the parser''"
  using scenarioA_facts by (simp_all add: scenarioHint_def Getenv_def)

theorem prompt_with_hint_witness:
  "Join (drop 1 (osArgs scenarioHint)) '' '' \<noteq> [] \<and>
   (\<exists>p. prompt (main scenarioHint) = Some p \<and>
        occurrences hintLead p = 1 \<and>
        (\<exists>post. p = tpl_head @ hintParagraph ''fix the parser'' @
           CHR 0x0A # ''Here is the git diff of the changes:'' @ [CHR 0x0A] @ diffMarker @
           [CHR 0x0A] @ (''+foo'' @ [CHR 0x0A] @ ''-bar'' @ [CHR 0x0A]) @ [CHR 0x0A] @
           diffMarker @ post))"
proof -
  have h: "Join (drop 1 (osArgs scenarioHint)) '' '' \<noteq> []"
    using scenarioHint_facts(4) by simp
  have n: "''+foo'' @ [CHR 0x0A] @ ''-bar'' @ [CHR 0x0A] \<noteq> []"
    by simp
  have o: "occurrences hintLead ''fix the parser'' = 0"
    "occurrences hintLead (''+foo'' @ [CHR 0x0A] @ ''-bar'' @ [CHR 0x0A]) = 0"
    by (simp_all add: hintLead_def)
  from prompt_with_hint
    [OF h scenarioHint_facts(1,2) TrimSpace_true_nl scenarioHint_facts(3) n]
    h o scenarioHint_facts(4)
  show ?thesis by auto
qed

text \<open>
  With the three-line argument of \<open>scenarioTwoHints\<close> the joined text is not empty, and the
  composed prompt has two hint paragraphs, one after the other: the hint sentence occurs
  twice.
\<close>

lemma hintTwice_paragraphs: "hintParagraph hintTwice = hintParagraph ''a'' @ hintParagraph ''b''"
  by (simp add: hintParagraph_def hintLead_def hintTwice_def)

lemma hintTwice_occurrences: "occurrences hintLead hintTwice = 1"
proof -
  have e: "hintTwice =
      ''a'' @ CHR 0x0A #
      ''Please take this hint into account when generating the commit message.'' @ CHR 0x0A #
      [] @ CHR 0x0A # (hintLead @ ''b'')"
    by (simp add: hintTwice_def hintLead_def)
  have z: "occurrences hintLead ''a'' = 0" "occurrences hintLead ''b'' = 0"
    by (simp_all add: hintLead_def)
  show ?thesis
    unfolding e
    by (simp only: occurrences_sep [OF hintLead_facts(1,2)] hintLead_facts hintLead_self z
          occurrences.simps(1) add_0 add_0_right)
qed

theorem prompt_with_hint_counterexample:
  "Join (drop 1 (osArgs scenarioTwoHints)) '' '' \<noteq> [] \<and>
   prompt (main scenarioTwoHints) =
     Some (tpl_head @ hintParagraph ''a'' @ hintParagraph ''b'' @ tpl_mid @
           (''+foo'' @ [CHR 0x0A] @ ''-bar'' @ [CHR 0x0A]) @ tpl_tail) \<and>
   occurrences hintLead
     (tpl_head @ hintParagraph ''a'' @ hintParagraph ''b'' @ tpl_mid @
      (''+foo'' @ [CHR 0x0A] @ ''-bar'' @ [CHR 0x0A]) @ tpl_tail) = 2"
proof -
  let ?d = "''+foo'' @ [CHR 0x0A] @ ''-bar'' @ [CHR 0x0A]"
  have f: "Getenv scenarioTwoHints ''GEMINI_API_KEY'' \<noteq> []"
    "cmdOutput scenarioTwoHints ''git'' revParseArgs = Inr (''true'' @ [CHR 0x0A])"
    "cmdOutput scenarioTwoHints ''git'' diffArgs = Inr ?d"
    "osArgs scenarioTwoHints = [''ai-commit'', hintTwice]"
    using scenarioA_facts by (simp_all add: scenarioTwoHints_def Getenv_def)
  have j: "Join (drop 1 (osArgs scenarioTwoHints)) '' '' = hintTwice"
    by (simp add: f(4))
  have "hintTwice \<noteq> []"
    by (simp add: hintTwice_def)
  with j have a: "Join (drop 1 (osArgs scenarioTwoHints)) '' '' \<noteq> []"
    by simp
  have n: "?d \<noteq> []" by simp
  have "additionalContextOf (osArgs scenarioTwoHints) = hintParagraph hintTwice"
    by (simp add: additionalContextOf_eq f(4))
  with prompt_reached [OF f(1,2) TrimSpace_true_nl f(3) n]
  have p: "prompt (main scenarioTwoHints) =
      Some (tpl_head @ hintParagraph hintTwice @ tpl_mid @ ?d @ tpl_tail)"
    by simp
  have "occurrences hintLead ?d = 0"
    by (simp add: hintLead_def)
  with occurrences_hinted_prompt [of hintTwice ?d] hintTwice_occurrences
  have o: "occurrences hintLead (tpl_head @ hintParagraph hintTwice @ tpl_mid @ ?d @ tpl_tail) = 2"
    by simp
  from a p o show ?thesis
    by (simp only: hintTwice_paragraphs append_assoc) simp
qed


text \<open>
  C9. In a run with at least one argument after the program name that finds a non-empty
  diff, a prompt is composed and has the hint paragraph around the joined arguments,
  whatever they are. With a single empty argument the paragraph is there with an empty
  hint text.
\<close>
theorem hint_for_any_argument:
  assumes "1 < length (osArgs w)"
    and "Getenv w ''GEMINI_API_KEY'' \<noteq> []"
    and "cmdOutput w ''git'' revParseArgs = Inr out" and "TrimSpace out = ''true''"
    and "cmdOutput w ''git'' diffArgs = Inr d" and "d \<noteq> []"
  shows "\<exists>p. prompt (main w) = Some p \<and>
           p = tpl_head @ hintParagraph (Join (drop 1 (osArgs w)) '' '') @
               tpl_mid @ d @ tpl_tail \<and>
           1 \<le> occurrences hintLead p \<and>
           (drop 1 (osArgs w) = [[]] \<longrightarrow>
              p = tpl_head @ hintParagraph [] @ tpl_mid @ d @ tpl_tail \<and>
              hintParagraph [] =
                [CHR 0x0A] @ ''User-provided hint/context for this commit: '' @ [CHR 0x0A] @
                ''Please take this hint into account when generating the commit message.'' @
                [CHR 0x0A])"
proof -
  let ?h = "Join (drop 1 (osArgs w)) '' ''"
  let ?p = "tpl_head @ hintParagraph ?h @ tpl_mid @ d @ tpl_tail"
  from assms(1) have "additionalContextOf (osArgs w) = hintParagraph ?h"
    by (simp add: additionalContextOf_eq)
  with prompt_reached [OF assms(2-6)] have p: "prompt (main w) = Some ?p"
    by simp
  have "occurrences hintLead ?p = 1 + occurrences hintLead ?h + occurrences hintLead d"
    by (rule occurrences_hinted_prompt)
  then have o: "1 \<le> occurrences hintLead ?p" by simp
  have e: "hintParagraph [] =
      [CHR 0x0A] @ ''User-provided hint/context for this commit: '' @ [CHR 0x0A] @
      ''Please take this hint into account when generating the commit message.'' @ [CHR 0x0A]"
    by (simp add: hintParagraph_def hintLead_def)
  have "drop 1 (osArgs w) = [[]] \<Longrightarrow> ?h = []" by simp
  then have "drop 1 (osArgs w) = [[]] \<longrightarrow>
      ?p = tpl_head @ hintParagraph [] @ tpl_mid @ d @ tpl_tail"
    by auto
  with p o e show ?thesis by blast
qed

lemma scenarioEmptyArg_facts:
  "Getenv scenarioEmptyArg ''GEMINI_API_KEY'' \<noteq> []"
  "cmdOutput scenarioEmptyArg ''git'' revParseArgs = Inr (''true'' @ [CHR 0x0A])"
  "cmdOutput scenarioEmptyArg ''git'' diffArgs =
     Inr (''+foo'' @ [CHR 0x0A] @ ''-bar'' @ [CHR 0x0A])"
  "osArgs scenarioEmptyArg = [''ai-commit'', []]"
  using scenarioA_facts by (simp_all add: scenarioEmptyArg_def Getenv_def)

theorem hint_for_any_argument_witness:
  "1 < length (osArgs scenarioEmptyArg) \<and> drop 1 (osArgs scenarioEmptyArg) = [[]] \<and>
   prompt (main scenarioEmptyArg) =
     Some (tpl_head @ hintParagraph [] @ tpl_mid @
           (''+foo'' @ [CHR 0x0A] @ ''-bar'' @ [CHR 0x0A]) @ tpl_tail)"
proof -
  have a: "1 < length (osArgs scenarioEmptyArg)"
    and b: "drop 1 (osArgs scenarioEmptyArg) = [[]]"
    by (simp_all add: scenarioEmptyArg_facts(4))
  have n: "''+foo'' @ [CHR 0x0A] @ ''-bar'' @ [CHR 0x0A] \<noteq> []"
    by simp
  from hint_for_any_argument
    [OF a scenarioEmptyArg_facts(1,2) TrimSpace_true_nl scenarioEmptyArg_facts(3) n] a b
  show ?thesis by auto
qed

text \<open>
  C5. When the run has called the generation client and the client has returned a text,
  standard output is that text and one newline, and the exit status is 0. When the exit
  status is not 0, nothing was written to standard output; anything on standard output
  comes from a successful generation.
\<close>
theorem stdout_is_the_message_or_empty:
  "(\<forall>p text. GenerateContent geminiModel p \<in> set (calls (main w)) \<and>
       generateContent w geminiModel p = Inr text \<longrightarrow>
       stdout (main w) = text @ [CHR 0x0A] \<and> exitStatus (main w) = 0) \<and>
   (exitStatus (main w) \<noteq> 0 \<longrightarrow> stdout (main w) = []) \<and>
   (stdout (main w) \<noteq> [] \<longrightarrow>
      (\<exists>p text. GenerateContent geminiModel p \<in> set (calls (main w)) \<and>
         generateContent w geminiModel p = Inr text))"
proof (intro conjI allI impI)
  fix p t
  assume "GenerateContent geminiModel p \<in> set (calls (main w)) \<and>
    generateContent w geminiModel p = Inr t"
  then show "stdout (main w) = t @ [CHR 0x0A]" and "exitStatus (main w) = 0"
    by (auto simp: main_def logFatal_def Let_def split: sum.splits option.splits if_splits)
next
  assume "exitStatus (main w) \<noteq> 0"
  then show "stdout (main w) = []"
    by (auto simp: main_def logFatal_def Let_def split: sum.splits option.splits if_splits)
next
  assume "stdout (main w) \<noteq> []"
  then show "\<exists>p text. GenerateContent geminiModel p \<in> set (calls (main w)) \<and>
      generateContent w geminiModel p = Inr text"
    by (auto simp: main_def logFatal_def Let_def split: sum.splits option.splits if_splits)
qed

lemma scenarioD_facts:
  "Getenv scenarioD ''GEMINI_API_KEY'' \<noteq> []"
  "cmdOutput scenarioD ''git'' revParseArgs = Inr (''true'' @ [CHR 0x0A])"
  "cmdOutput scenarioD ''git'' diffArgs = Inr (''+foo'' @ [CHR 0x0A] @ ''-bar'' @ [CHR 0x0A])"
  "newClient scenarioD k = None"
  "generateContent scenarioD m p = Inl ''quota exceeded''"
  using scenarioA_facts by (simp_all add: scenarioD_def Getenv_def)

theorem stdout_is_the_message_or_empty_witness:
  "stdout (main scenarioA) =
     [CHR 0xE2, CHR 0x9C, CHR 0xA8] @ '' feat(core): add foo'' @ [CHR 0x0A] \<and>
   exitStatus (main scenarioA) = 0 \<and>
   exitStatus (main scenarioD) \<noteq> 0 \<and> stdout (main scenarioD) = []"
proof -
  let ?p = "tpl_head @ additionalContextOf (osArgs scenarioA) @ tpl_mid @
            (''+foo'' @ [CHR 0x0A] @ ''-bar'' @ [CHR 0x0A]) @ tpl_tail"
  have "GenerateContent geminiModel ?p \<in> set (calls (main scenarioA))"
    using run_through(1) [OF scenarioA_facts(1,2) TrimSpace_true_nl scenarioA_facts(3) _
        scenarioA_facts(4)]
    by simp
  moreover have "generateContent scenarioA geminiModel ?p =
      Inr ([CHR 0xE2, CHR 0x9C, CHR 0xA8] @ '' feat(core): add foo'')"
    by (simp add: scenarioA_def)
  ultimately have a: "stdout (main scenarioA) =
      ([CHR 0xE2, CHR 0x9C, CHR 0xA8] @ '' feat(core): add foo'') @ [CHR 0x0A] \<and>
      exitStatus (main scenarioA) = 0"
    using stdout_is_the_message_or_empty [of scenarioA] by blast
  have "exitStatus (main scenarioD) \<noteq> 0"
    using run_through(2) [OF scenarioD_facts(1,2) TrimSpace_true_nl scenarioD_facts(3) _
        scenarioD_facts(4)]
    by (simp add: scenarioD_facts(5))
  then have "exitStatus (main scenarioD) \<noteq> 0 \<and> stdout (main scenarioD) = []"
    using stdout_is_the_message_or_empty [of scenarioD] by blast
  with a show ?thesis by simp
qed

text \<open>
  C8. A run in which the credential is set and the repository check has passed executes
  \<^verbatim>\<open>git diff --staged --patch --unified=5\<close> as its second call, right after
  \<^verbatim>\<open>git rev-parse --is-inside-work-tree\<close>, and when that command gives a non-empty output
  the prompt is composed around exactly that output. No run executes any other command, and
  the diff in any composed prompt is the output of that command: staged changes only,
  patch format, five lines of context. What the options mean is \<^verbatim>\<open>git\<close>'s part; the
  program's part is to pass exactly these.
\<close>
theorem diff_collector_command:
  "(Getenv w ''GEMINI_API_KEY'' \<noteq> [] \<and>
    (\<exists>out. cmdOutput w ''git'' [''rev-parse'', ''--is-inside-work-tree''] = Inr out \<and>
           TrimSpace out = ''true'') \<longrightarrow>
      take 2 (calls (main w)) =
        [Exec ''git'' [''rev-parse'', ''--is-inside-work-tree''],
         Exec ''git'' [''diff'', ''--staged'', ''--patch'', ''--unified=5'']] \<and>
      Exec ''git'' [''diff'', ''--staged'', ''--patch'', ''--unified=5'']
        \<in> set (calls (main w)) \<and>
      (\<forall>d. cmdOutput w ''git'' [''diff'', ''--staged'', ''--patch'', ''--unified=5''] = Inr d \<and>
           d \<noteq> [] \<longrightarrow>
           prompt (main w) =
             Some (tpl_head @ additionalContextOf (osArgs w) @ tpl_mid @ d @ tpl_tail))) \<and>
   (\<forall>name args. Exec name args \<in> set (calls (main w)) \<longrightarrow>
      name = ''git'' \<and>
      (args = [''rev-parse'', ''--is-inside-work-tree''] \<or>
       args = [''diff'', ''--staged'', ''--patch'', ''--unified=5''])) \<and>
   (\<forall>p. prompt (main w) = Some p \<longrightarrow>
      Exec ''git'' [''diff'', ''--staged'', ''--patch'', ''--unified=5''] \<in> set (calls (main w)) \<and>
      (\<exists>d. cmdOutput w ''git'' [''diff'', ''--staged'', ''--patch'', ''--unified=5''] = Inr d \<and>
           p = tpl_head @ additionalContextOf (osArgs w) @ tpl_mid @ d @ tpl_tail))"
proof (intro conjI)
  show "Getenv w ''GEMINI_API_KEY'' \<noteq> [] \<and>
    (\<exists>out. cmdOutput w ''git'' [''rev-parse'', ''--is-inside-work-tree''] = Inr out \<and>
           TrimSpace out = ''true'') \<longrightarrow>
      take 2 (calls (main w)) =
        [Exec ''git'' [''rev-parse'', ''--is-inside-work-tree''],
         Exec ''git'' [''diff'', ''--staged'', ''--patch'', ''--unified=5'']] \<and>
      Exec ''git'' [''diff'', ''--staged'', ''--patch'', ''--unified=5'']
        \<in> set (calls (main w)) \<and>
      (\<forall>d. cmdOutput w ''git'' [''diff'', ''--staged'', ''--patch'', ''--unified=5''] = Inr d \<and>
           d \<noteq> [] \<longrightarrow>
           prompt (main w) =
             Some (tpl_head @ additionalContextOf (osArgs w) @ tpl_mid @ d @ tpl_tail))"
    by (auto simp: main_def logFatal_def Let_def Sprintf_promptTemplate diffArgs_def
          revParseArgs_def
        split: sum.splits option.splits)
next
  show "\<forall>name args. Exec name args \<in> set (calls (main w)) \<longrightarrow>
      name = ''git'' \<and>
      (args = [''rev-parse'', ''--is-inside-work-tree''] \<or>
       args = [''diff'', ''--staged'', ''--patch'', ''--unified=5''])"
    by (auto simp: main_def logFatal_def Let_def diffArgs_def revParseArgs_def
        split: sum.splits option.splits if_splits)
next
  show "\<forall>p. prompt (main w) = Some p \<longrightarrow>
      Exec ''git'' [''diff'', ''--staged'', ''--patch'', ''--unified=5''] \<in> set (calls (main w)) \<and>
      (\<exists>d. cmdOutput w ''git'' [''diff'', ''--staged'', ''--patch'', ''--unified=5''] = Inr d \<and>
           p = tpl_head @ additionalContextOf (osArgs w) @ tpl_mid @ d @ tpl_tail)"
    by (auto simp: main_def logFatal_def Let_def Sprintf_promptTemplate diffArgs_def
          revParseArgs_def
        split: sum.splits option.splits if_splits)
qed

theorem diff_collector_command_witness:
  "Getenv scenarioA ''GEMINI_API_KEY'' \<noteq> [] \<and>
   cmdOutput scenarioA ''git'' [''rev-parse'', ''--is-inside-work-tree''] =
     Inr (''true'' @ [CHR 0x0A]) \<and>
   TrimSpace (''true'' @ [CHR 0x0A]) = ''true'' \<and>
   take 2 (calls (main scenarioA)) =
     [Exec ''git'' [''rev-parse'', ''--is-inside-work-tree''],
      Exec ''git'' [''diff'', ''--staged'', ''--patch'', ''--unified=5'']] \<and>
   Exec ''git'' [''diff'', ''--staged'', ''--patch'', ''--unified=5'']
     \<in> set (calls (main scenarioA)) \<and>
   prompt (main scenarioA) =
     Some (tpl_head @ tpl_mid @ (''+foo'' @ [CHR 0x0A] @ ''-bar'' @ [CHR 0x0A]) @ tpl_tail)"
proof -
  let ?d = "''+foo'' @ [CHR 0x0A] @ ''-bar'' @ [CHR 0x0A]"
  have k: "Getenv scenarioA ''GEMINI_API_KEY'' \<noteq> []"
    by (rule scenarioA_facts(1))
  have r: "cmdOutput scenarioA ''git'' [''rev-parse'', ''--is-inside-work-tree''] =
      Inr (''true'' @ [CHR 0x0A])"
    using scenarioA_facts(2) by (simp add: revParseArgs_def)
  have d: "cmdOutput scenarioA ''git'' [''diff'', ''--staged'', ''--patch'', ''--unified=5''] =
      Inr ?d"
    using scenarioA_facts(3) by (simp add: diffArgs_def)
  have n: "?d \<noteq> []" by simp
  have c: "additionalContextOf (osArgs scenarioA) = []"
    by (simp add: additionalContextOf_eq scenarioA_def)
  from k r TrimSpace_true_nl
  have h: "Getenv scenarioA ''GEMINI_API_KEY'' \<noteq> [] \<and>
    (\<exists>out. cmdOutput scenarioA ''git'' [''rev-parse'', ''--is-inside-work-tree''] = Inr out \<and>
           TrimSpace out = ''true'')"
    by blast
  from diff_collector_command [of scenarioA] h
  have t: "take 2 (calls (main scenarioA)) =
        [Exec ''git'' [''rev-parse'', ''--is-inside-work-tree''],
         Exec ''git'' [''diff'', ''--staged'', ''--patch'', ''--unified=5'']]"
    and e: "Exec ''git'' [''diff'', ''--staged'', ''--patch'', ''--unified=5'']
        \<in> set (calls (main scenarioA))"
    and a: "\<forall>d. cmdOutput scenarioA ''git''
             [''diff'', ''--staged'', ''--patch'', ''--unified=5''] = Inr d \<and> d \<noteq> [] \<longrightarrow>
           prompt (main scenarioA) =
             Some (tpl_head @ additionalContextOf (osArgs scenarioA) @ tpl_mid @ d @ tpl_tail)"
    by blast+
  from a d n have "prompt (main scenarioA) =
      Some (tpl_head @ additionalContextOf (osArgs scenarioA) @ tpl_mid @ ?d @ tpl_tail)"
    by blast
  with c have "prompt (main scenarioA) = Some (tpl_head @ tpl_mid @ ?d @ tpl_tail)"
    by simp
  with k r TrimSpace_true_nl t e show ?thesis by blast
qed

text \<open>
  C10. When the credential is set and the repository check succeeds with an output that,
  trimmed of white space, is not \<^verbatim>\<open>true\<close>, the run ends fatally with the message for not
  being inside a repository, and the repository check is the only call it has made. The
  diff is collected only after a repository check whose trimmed output is \<^verbatim>\<open>true\<close>.
\<close>
theorem repository_check:
  "(\<forall>out. Getenv w ''GEMINI_API_KEY'' \<noteq> [] \<and>
      cmdOutput w ''git'' revParseArgs = Inr out \<and> TrimSpace out \<noteq> ''true'' \<longrightarrow>
      exitStatus (main w) = 1 \<and>
      stderr (main w) = logLine w ''Not inside a git repository.'' \<and>
      calls (main w) = [Exec ''git'' revParseArgs] \<and>
      stdout (main w) = [] \<and> prompt (main w) = None) \<and>
   (Exec ''git'' diffArgs \<in> set (calls (main w)) \<longrightarrow>
      (\<exists>out. cmdOutput w ''git'' revParseArgs = Inr out \<and> TrimSpace out = ''true''))"
  by (auto simp: main_def logFatal_def Let_def diffArgs_def revParseArgs_def
      split: sum.splits option.splits if_splits)

lemma scenarioNotRepo_facts:
  "Getenv scenarioNotRepo ''GEMINI_API_KEY'' \<noteq> []"
  "cmdOutput scenarioNotRepo ''git'' revParseArgs = Inr (''false'' @ [CHR 0x0A])"
  using scenarioA_facts by (simp_all add: scenarioNotRepo_def Getenv_def)

theorem repository_check_witness:
  "cmdOutput scenarioNotRepo ''git'' revParseArgs = Inr (''false'' @ [CHR 0x0A]) \<and>
   TrimSpace (''false'' @ [CHR 0x0A]) \<noteq> ''true'' \<and>
   exitStatus (main scenarioNotRepo) = 1 \<and>
   calls (main scenarioNotRepo) = [Exec ''git'' revParseArgs] \<and>
   stderr (main scenarioNotRepo) = logLine scenarioNotRepo ''Not inside a git repository.'' \<and>
   Exec ''git'' diffArgs \<in> set (calls (main scenarioA)) \<and>
   (\<exists>out. cmdOutput scenarioA ''git'' revParseArgs = Inr out \<and> TrimSpace out = ''true'')"
proof -
  have t: "TrimSpace (''false'' @ [CHR 0x0A]) \<noteq> ''true''"
    by (simp only: TrimSpace_false_nl) simp
  have a: "Exec ''git'' diffArgs \<in> set (calls (main scenarioA))"
    using run_through(1) [OF scenarioA_facts(1,2) TrimSpace_true_nl scenarioA_facts(3) _
        scenarioA_facts(4)]
    by simp
  from repository_check [of scenarioNotRepo] scenarioNotRepo_facts t
  have "exitStatus (main scenarioNotRepo) = 1 \<and>
      stderr (main scenarioNotRepo) = logLine scenarioNotRepo ''Not inside a git repository.'' \<and>
      calls (main scenarioNotRepo) = [Exec ''git'' revParseArgs]"
    by blast
  moreover from repository_check [of scenarioA] a
  have "\<exists>out. cmdOutput scenarioA ''git'' revParseArgs = Inr out \<and> TrimSpace out = ''true''"
    by blast
  ultimately show ?thesis using scenarioNotRepo_facts(2) t a by blast
qed

section \<open>The spinner\<close>

lemma spinLoop_ticks:
  "spinLoop message i (replicate n Tick @ Done # rest) =
     (map (\<lambda>k. frame message ((i + k) mod length spinnerChars)) [1..<Suc n] @
      [eraseLine message], True)"
proof (induction n arbitrary: i)
  case 0
  show ?case by simp
next
  case (Suc n)
  let ?L = "length spinnerChars"
  have shift: "map (\<lambda>k. frame message (((i + 1) mod ?L + k) mod ?L)) [1..<Suc n] =
               map (\<lambda>k. frame message ((i + k) mod ?L)) [2..<Suc (Suc n)]"
  proof -
    have "[2..<Suc (Suc n)] = map Suc [1..<Suc n]"
      by (simp add: map_Suc_upt numeral_2_eq_2)
    moreover have "((i + 1) mod ?L + k) mod ?L = (i + Suc k) mod ?L" for k
      by (simp add: mod_add_left_eq)
    ultimately show ?thesis by (simp add: comp_def)
  qed
  have "[1..<Suc (Suc n)] = 1 # [2..<Suc (Suc n)]"
    by (simp add: upt_conv_Cons numeral_2_eq_2)
  with Suc [of "(i + 1) mod ?L"] shift show ?case
    by (simp add: Let_def)
qed

lemma split_at_Done:
  assumes "Done \<in> set evs"
  shows "\<exists>rest. evs = replicate (length (takeWhile (\<lambda>e. e = Tick) evs)) Tick @ Done # rest"
  using assms
proof (induction evs)
  case Nil
  then show ?case by simp
next
  case (Cons e evs)
  show ?case
  proof (cases e)
    case Done
    then show ?thesis by simp
  next
    case Tick
    with Cons show ?thesis by auto
  qed
qed

lemma eraseLine_plain: "c \<in> set (eraseLine message) \<Longrightarrow> c = CHR 0x0D \<or> c = CHR '' ''"
  by (auto simp: eraseLine_eq)

lemma runeCount_le: "runeCount s \<le> length s"
  by (simp add: runeCount_def)

lemma runeCount_append: "runeCount (a @ b) = runeCount a + runeCount b"
  by (simp add: runeCount_def)

text \<open>
  C7. When the spinner's \<^verbatim>\<open>select\<close> takes the cancellation, \<^verbatim>\<open>showSpinner\<close> returns and
  its writes are the first frame, one frame for each tick taken before, and last the
  erasure: a carriage return, as many spaces as the message has bytes plus two, and a
  carriage return. The erasure contains no spinner glyph, and nothing is written after it.
  The spaces are enough: a frame has at most that many characters, and the frame of the
  program's own message takes at most that many terminal cells even with its emoji and
  the glyph counted as two cells each.
\<close>
theorem spinner_erases_on_stop:
  assumes "Done \<in> set evs"
  shows "showSpinner message evs =
           (firstFrame message #
            map (\<lambda>k. frame message (k mod length spinnerChars))
              [1..<Suc (length (takeWhile (\<lambda>e. e = Tick) evs))] @
            [eraseLine message], True) \<and>
         eraseLine message =
           [CHR 0x0D] @ replicate (length message + 2) CHR '' '' @ [CHR 0x0D] \<and>
         (\<forall>g \<in> set spinnerChars.
            \<not> sublist g (eraseLine message) \<and>
            runeCount (message @ '' '' @ g) \<le> length message + 2 \<and>
            cells (spinnerMessage @ '' '' @ g) \<le> length spinnerMessage + 2)"
proof -
  from split_at_Done [OF assms] obtain rest
    where "evs = replicate (length (takeWhile (\<lambda>e. e = Tick) evs)) Tick @ Done # rest"
    by blast
  then have "spinLoop message 0 evs =
      (map (\<lambda>k. frame message (k mod length spinnerChars))
         [1..<Suc (length (takeWhile (\<lambda>e. e = Tick) evs))] @ [eraseLine message], True)"
    using spinLoop_ticks [of message 0 "length (takeWhile (\<lambda>e. e = Tick) evs)" rest]
    by simp
  then have run: "showSpinner message evs =
      (firstFrame message #
       map (\<lambda>k. frame message (k mod length spinnerChars))
         [1..<Suc (length (takeWhile (\<lambda>e. e = Tick) evs))] @ [eraseLine message], True)"
    by (simp add: showSpinner_def)
  have erase: "eraseLine message =
      [CHR 0x0D] @ replicate (length message + 2) CHR '' '' @ [CHR 0x0D]"
    by (simp add: eraseLine_eq)
  have glyph: "\<not> sublist g (eraseLine message) \<and>
      runeCount (message @ '' '' @ g) \<le> length message + 2 \<and>
      cells (spinnerMessage @ '' '' @ g) \<le> length spinnerMessage + 2"
    if "g \<in> set spinnerChars" for g
  proof (intro conjI)
    from that have g: "CHR 0xE2 \<in> set g" "runeCount g = 1" "cells g = 2"
      by (auto simp: spinnerChars_def runeCount_def cells_def cellsOf_def)
    show "\<not> sublist g (eraseLine message)"
    proof
      assume "sublist g (eraseLine message)"
      then have "set g \<subseteq> set (eraseLine message)" by (rule set_mono_sublist)
      with g(1) have "CHR 0xE2 \<in> set (eraseLine message)" by blast
      then show False by (auto dest: eraseLine_plain)
    qed
    have "runeCount (message @ '' '' @ g) = runeCount message + 2"
      using g(2) by (simp add: runeCount_append) (simp add: runeCount_def)
    with runeCount_le [of message] show "runeCount (message @ '' '' @ g) \<le> length message + 2"
      by simp
    have "cells spinnerMessage = 33" "length spinnerMessage = 35"
      by (simp_all add: spinnerMessage_eq cells_def cellsOf_def)
    with g(3) show "cells (spinnerMessage @ '' '' @ g) \<le> length spinnerMessage + 2"
      by (simp add: cells_def cellsOf_def)
  qed
  from run erase glyph show ?thesis by blast
qed

theorem spinner_erases_on_stop_witness:
  "Done \<in> set [Tick, Tick, Done] \<and>
   showSpinner ''wait'' [Tick, Tick, Done] =
     ([''wait '' @ [CHR 0xE2, CHR 0xA0, CHR 0x8B],
       [CHR 0x0D] @ ''wait '' @ [CHR 0xE2, CHR 0xA0, CHR 0x99],
       [CHR 0x0D] @ ''wait '' @ [CHR 0xE2, CHR 0xA0, CHR 0xB9],
       [CHR 0x0D] @ ''      '' @ [CHR 0x0D]], True)"
proof -
  have d: "Done \<in> set [Tick, Tick, Done]" by simp
  have "[1..<Suc (length (takeWhile (\<lambda>e. e = Tick) [Tick, Tick, Done]))] = [1, 2]"
    by (simp add: upt_conv_Cons)
  with spinner_erases_on_stop [OF d, of "''wait''"] d show ?thesis
    by (simp add: firstFrame_eq frame_eq spinnerChars_def)
qed


section \<open>The join before the report\<close>

lemma invariant_spawned: "invariant spawned"
  by (simp add: invariant_def spawned_def)

lemma main_step_invariant:
  assumes "invariant s" and "step w result MainMove s = Some s'"
  shows "invariant s'"
proof (cases "mainAt s")
  case Generating
  with assms(2) have "s' = s\<lparr> mainAt := Cancelling \<rparr>"
    by (simp add: step_def)
  with assms(1) Generating show ?thesis
    by (auto simp: invariant_def)
next
  case Cancelling
  with assms(2) have "s' = s\<lparr> mainAt := Waiting, cancelled := True \<rparr>"
    by (simp add: step_def)
  with assms(1) Cancelling show ?thesis
    by (auto simp: invariant_def)
next
  case Waiting
  with assms(2) have "waitCount s = 0" and "s' = s\<lparr> mainAt := Reporting \<rparr>"
    by (simp_all add: step_def split: if_splits)
  with assms(1) Waiting show ?thesis
    by (auto simp: invariant_def split: if_splits)
next
  case Reporting
  with assms(2) have "mainAt s' = Exited \<and> spinAt s' = spinAt s \<and>
      cancelled s' = cancelled s \<and> waitCount s' = waitCount s"
    by (cases result) (auto simp: step_def)
  with assms(1) Reporting show ?thesis
    by (auto simp: invariant_def)
next
  case Exited
  with assms(2) show ?thesis
    by (simp add: step_def)
qed

lemma spinner_step_invariant:
  assumes "invariant s" and "step w result (SpinnerMove sel) s = Some s'"
  shows "invariant s'"
proof (cases "spinAt s")
  case Starting
  with assms(2)
  have s': "s' = s\<lparr> spinAt := Selecting 0,
              errWrites := errWrites s @ [(SpinnerTask, firstFrame spinnerMessage)] \<rparr>"
    by (simp add: step_def)
  from assms(1) Starting show ?thesis
    by (auto simp: s' invariant_def)
next
  case (Selecting i)
  show ?thesis
  proof (cases sel)
    case Done
    with assms(2) Selecting have c: "cancelled s"
      and s': "s' = s\<lparr> spinAt := Returning,
                errWrites := errWrites s @ [(SpinnerTask, eraseLine spinnerMessage)] \<rparr>"
      by (simp_all add: step_def split: if_splits)
    from assms(1) Selecting c show ?thesis
      by (auto simp: s' invariant_def)
  next
    case Tick
    with assms(2) Selecting
    have s': "s' = s\<lparr> spinAt := Selecting ((i + 1) mod length spinnerChars),
                errWrites := errWrites s @
                  [(SpinnerTask, frame spinnerMessage ((i + 1) mod length spinnerChars))] \<rparr>"
      by (simp add: step_def Let_def)
    from assms(1) Selecting show ?thesis
      by (auto simp: s' invariant_def)
  qed
next
  case Returning
  with assms(2) have s': "s' = s\<lparr> spinAt := Finished, waitCount := waitCount s - 1 \<rparr>"
    by (simp add: step_def)
  from assms(1) Returning show ?thesis
    by (auto simp: s' invariant_def)
next
  case Finished
  with assms(2) show ?thesis
    by (simp add: step_def)
qed

lemma step_invariant:
  assumes "invariant s" and "step w result mv s = Some s'"
  shows "invariant s'"
  using assms main_step_invariant spinner_step_invariant
  by (cases mv) blast+

lemma exec_invariant:
  assumes "invariant s" and "exec w result sched s = Some s'"
  shows "invariant s'"
  using assms
proof (induction sched arbitrary: s)
  case Nil
  then show ?case by simp
next
  case (Cons mv sched)
  from Cons.prems(2) obtain t
    where t: "step w result mv s = Some t" and r: "exec w result sched t = Some s'"
    by (auto split: option.splits)
  from step_invariant [OF Cons.prems(1) t] have "invariant t" .
  from Cons.IH [OF this r] show ?case .
qed

text \<open>
  C6. In every state that a schedule of the two tasks reaches with \<^verbatim>\<open>main\<close> about to
  report (to print the commit message or the fatal message of the generation error), the
  spinner's context has been cancelled, the goroutine has ended, the error stream holds
  only writes of the spinner and the last of them is the erasure, nothing is on standard
  output, and the spinner can make no further move. The report itself then writes the
  message and a newline to standard output, or the fatal line to the error stream.
\<close>
theorem join_before_report:
  assumes "exec w result sched spawned = Some s" and "mainAt s = Reporting"
  shows "cancelled s \<and> spinAt s = Finished \<and> waitCount s = 0 \<and> outWrites s = [] \<and>
         (\<forall>x \<in> set (errWrites s). fst x = SpinnerTask) \<and>
         errWrites s \<noteq> [] \<and> last (errWrites s) = (SpinnerTask, eraseLine spinnerMessage) \<and>
         (\<forall>sel. step w result (SpinnerMove sel) s = None) \<and>
         (\<exists>s'. step w result MainMove s = Some s' \<and> mainAt s' = Exited \<and>
            (case result of
               Inl err \<Rightarrow>
                 outWrites s' = [] \<and>
                 errWrites s' = errWrites s @
                   [(MainTask, logLine w
                      (Sprintf ''Error generating commit message : %v'' [err]))]
             | Inr text \<Rightarrow>
                 outWrites s' = [text @ [CHR 0x0A]] \<and> errWrites s' = errWrites s))"
proof -
  from exec_invariant [OF invariant_spawned assms(1)] have "invariant s" .
  with assms(2) have f: "cancelled s" "spinAt s = Finished" "waitCount s = 0" "outWrites s = []"
    "\<forall>x \<in> set (errWrites s). fst x = SpinnerTask"
    "errWrites s \<noteq> []" "last (errWrites s) = (SpinnerTask, eraseLine spinnerMessage)"
    by (simp_all add: invariant_def)
  have n: "\<forall>sel. step w result (SpinnerMove sel) s = None"
    using f(2) by (simp add: step_def)
  have m: "\<exists>s'. step w result MainMove s = Some s' \<and> mainAt s' = Exited \<and>
            (case result of
               Inl err \<Rightarrow>
                 outWrites s' = [] \<and>
                 errWrites s' = errWrites s @
                   [(MainTask, logLine w
                      (Sprintf ''Error generating commit message : %v'' [err]))]
             | Inr text \<Rightarrow>
                 outWrites s' = [text @ [CHR 0x0A]] \<and> errWrites s' = errWrites s)"
    using assms(2) f(4) by (cases result) (simp_all add: step_def)
  from f n m show ?thesis by blast
qed

lemma demo_run:
  "exec w result demoSchedule spawned =
     Some \<lparr> mainAt = Reporting, spinAt = Finished, cancelled = True, waitCount = 0,
            errWrites =
              [(SpinnerTask, firstFrame spinnerMessage),
               (SpinnerTask, frame spinnerMessage 1),
               (SpinnerTask, frame spinnerMessage 2),
               (SpinnerTask, eraseLine spinnerMessage)],
            outWrites = [] \<rparr>"
  by (simp add: demoSchedule_def spawned_def step_def spinnerChars_def numeral_2_eq_2)

theorem join_before_report_witness:
  "\<exists>s. exec scenarioD (Inl ''quota exceeded'') demoSchedule spawned = Some s \<and>
       mainAt s = Reporting \<and> cancelled s \<and> spinAt s = Finished \<and>
       last (errWrites s) = (SpinnerTask, eraseLine spinnerMessage)"
proof -
  let ?s = "\<lparr> mainAt = Reporting, spinAt = Finished, cancelled = True, waitCount = 0,
            errWrites =
              [(SpinnerTask, firstFrame spinnerMessage),
               (SpinnerTask, frame spinnerMessage 1),
               (SpinnerTask, frame spinnerMessage 2),
               (SpinnerTask, eraseLine spinnerMessage)],
            outWrites = [] \<rparr>"
  have r: "exec scenarioD (Inl ''quota exceeded'') demoSchedule spawned = Some ?s"
    by (rule demo_run)
  have a: "mainAt ?s = Reporting" by simp
  from join_before_report [OF r a] r a show ?thesis by blast
qed


section \<open>Complete schedules and the streams of the program\<close>

lemma framesUpTo_Suc:
  "framesUpTo (Suc n) =
     framesUpTo n @ [frame spinnerMessage (Suc n mod length spinnerChars)]"
  by (simp add: framesUpTo_def)

lemma showSpinner_frames:
  "showSpinner spinnerMessage (replicate n Tick @ [Done]) =
     (framesUpTo n @ [eraseLine spinnerMessage], True)"
  using spinLoop_ticks [of spinnerMessage 0 n "[]"]
  by (simp add: showSpinner_def framesUpTo_def)

lemma spinnerWrites_append:
  "errWrites s' = errWrites s @ [(t, x)] \<Longrightarrow>
   spinnerWrites s' = spinnerWrites s @ (if t = SpinnerTask then [x] else [])"
  by (simp add: spinnerWrites_def)

lemma spinnerWrites_same: "errWrites s' = errWrites s \<Longrightarrow> spinnerWrites s' = spinnerWrites s"
  by (simp add: spinnerWrites_def)

lemma progress_spawned: "progress w result spawned"
  by (simp add: progress_def spawned_def spinnerWrites_def)

lemma progress_same:
  assumes "progress w result s" and "mainAt s \<noteq> Exited" and "mainAt s' \<noteq> Exited"
    and "errWrites s' = errWrites s" and "outWrites s' = outWrites s"
    and "spinAt s' = spinAt s"
  shows "progress w result s'"
  using assms spinnerWrites_same [of s' s] by (simp add: progress_def)

lemma main_step_progress:
  assumes "invariant s" and "progress w result s" and "step w result MainMove s = Some s'"
  shows "progress w result s'"
proof (cases "mainAt s")
  case Generating
  with assms(3) have "s' = s\<lparr> mainAt := Cancelling \<rparr>"
    by (simp add: step_def)
  with Generating show ?thesis
    by (intro progress_same [OF assms(2)]) simp_all
next
  case Cancelling
  with assms(3) have "s' = s\<lparr> mainAt := Waiting, cancelled := True \<rparr>"
    by (simp add: step_def)
  with Cancelling show ?thesis
    by (intro progress_same [OF assms(2)]) simp_all
next
  case Waiting
  with assms(3) have "s' = s\<lparr> mainAt := Reporting \<rparr>"
    by (simp add: step_def split: if_splits)
  with Waiting show ?thesis
    by (intro progress_same [OF assms(2)]) simp_all
next
  case Reporting
  with assms(3) have "mainAt s' = Exited \<and> spinAt s' = spinAt s \<and>
      errWrites s' = errWrites s @ reportOf w result \<and>
      outWrites s' = outWrites s @ printedOf result"
    by (cases result) (auto simp: step_def reportOf_def printedOf_def)
  then have s': "mainAt s' = Exited" "spinAt s' = spinAt s"
      "errWrites s' = errWrites s @ reportOf w result"
      "outWrites s' = outWrites s @ printedOf result"
    by simp_all
  have "spinnerWrites s' = spinnerWrites s"
    by (cases result) (simp_all add: s'(3) spinnerWrites_def reportOf_def)
  with assms(2) Reporting s' show ?thesis
    by (simp add: progress_def)
next
  case Exited
  with assms(3) show ?thesis
    by (simp add: step_def)
qed

lemma spinner_step_progress:
  assumes "invariant s" and "progress w result s"
    and "step w result (SpinnerMove sel) s = Some s'"
  shows "progress w result s'"
proof -
  from assms(3) have "spinAt s \<noteq> Finished"
    by (auto simp: step_def)
  with assms(1) have m: "mainAt s \<noteq> Exited"
    by (auto simp: invariant_def)
  with assms(2) have e: "errWrites s = map (Pair SpinnerTask) (spinnerWrites s)"
    and o: "outWrites s = []"
    by (simp_all add: progress_def)
  show ?thesis
  proof (cases "spinAt s")
    case Starting
    with assms(3)
    have s': "s' = s\<lparr> spinAt := Selecting 0,
                errWrites := errWrites s @ [(SpinnerTask, firstFrame spinnerMessage)] \<rparr>"
      by (simp add: step_def)
    from assms(2) Starting have "spinnerWrites s = []"
      by (simp add: progress_def)
    then have w': "spinnerWrites s' = framesUpTo 0"
      using spinnerWrites_append [of s' s SpinnerTask "firstFrame spinnerMessage"]
      by (simp add: s' framesUpTo_def)
    have "0 = 0 mod length spinnerChars" by simp
    with w' have "\<exists>n. 0 = n mod length spinnerChars \<and> spinnerWrites s' = framesUpTo n"
      by blast
    moreover have "errWrites s' = map (Pair SpinnerTask) (spinnerWrites s')"
      using e w' \<open>spinnerWrites s = []\<close> by (simp add: s' framesUpTo_def)
    ultimately show ?thesis using m o
      by (simp add: progress_def s')
  next
    case (Selecting i)
    from assms(2) Selecting obtain n
      where n: "i = n mod length spinnerChars" "spinnerWrites s = framesUpTo n"
      by (auto simp: progress_def)
    show ?thesis
    proof (cases sel)
      case Done
      with assms(3) Selecting
      have s': "s' = s\<lparr> spinAt := Returning,
                  errWrites := errWrites s @ [(SpinnerTask, eraseLine spinnerMessage)] \<rparr>"
        by (simp add: step_def split: if_splits)
      have w': "spinnerWrites s' = framesUpTo n @ [eraseLine spinnerMessage]"
        using spinnerWrites_append [of s' s SpinnerTask "eraseLine spinnerMessage"] n(2)
        by (simp add: s')
      then have "\<exists>n. spinnerWrites s' = framesUpTo n @ [eraseLine spinnerMessage]" ..
      moreover have "errWrites s' = map (Pair SpinnerTask) (spinnerWrites s')"
        using e w' n(2) by (simp add: s')
      ultimately show ?thesis using m o
        by (simp add: progress_def s')
    next
      case Tick
      let ?i = "(i + 1) mod length spinnerChars"
      from assms(3) Selecting Tick
      have s': "s' = s\<lparr> spinAt := Selecting ?i,
                  errWrites := errWrites s @ [(SpinnerTask, frame spinnerMessage ?i)] \<rparr>"
        by (simp add: step_def Let_def)
      have i: "?i = Suc n mod length spinnerChars"
        using n(1) by (simp add: mod_Suc_eq)
      have w': "spinnerWrites s' = framesUpTo (Suc n)"
        using spinnerWrites_append [of s' s SpinnerTask "frame spinnerMessage ?i"] n(2) i
        by (simp add: s' framesUpTo_Suc)
      with i have "\<exists>k. ?i = k mod length spinnerChars \<and> spinnerWrites s' = framesUpTo k"
        by blast
      moreover have "errWrites s' = map (Pair SpinnerTask) (spinnerWrites s')"
        using e w' n(2) i by (simp add: s' framesUpTo_Suc)
      ultimately show ?thesis using m o
        by (simp add: progress_def s')
    qed
  next
    case Returning
    with assms(3) have s': "s' = s\<lparr> spinAt := Finished, waitCount := waitCount s - 1 \<rparr>"
      by (simp add: step_def)
    have "spinnerWrites s' = spinnerWrites s"
      by (simp add: s' spinnerWrites_def)
    with assms(2) Returning m show ?thesis
      by (simp add: progress_def s')
  next
    case Finished
    with assms(3) show ?thesis
      by (simp add: step_def)
  qed
qed

lemma exec_progress:
  assumes "invariant s" and "progress w result s" and "exec w result sched s = Some s'"
  shows "progress w result s'"
  using assms
proof (induction sched arbitrary: s)
  case Nil
  then show ?case by simp
next
  case (Cons mv sched)
  from Cons.prems(3) obtain t
    where t: "step w result mv s = Some t" and r: "exec w result sched t = Some s'"
    by (auto split: option.splits)
  from step_invariant [OF Cons.prems(1) t] have i: "invariant t" .
  from Cons.prems(1,2) t have "progress w result t"
    using main_step_progress spinner_step_progress by (cases mv) blast+
  from Cons.IH [OF i this r] show ?case .
qed

text \<open>
  Every schedule that runs the two tasks to the end leaves on the streams what \<open>main\<close>
  puts there: the writes of \<open>showSpinner\<close> for some number of ticks, then the report.
\<close>

lemma schedule_gives_main_streams:
  assumes "exec w result sched spawned = Some s" and "mainAt s = Exited"
  shows "\<exists>n. map snd (errWrites s) =
              fst (showSpinner spinnerMessage (replicate n Tick @ [Done])) @
              map snd (reportOf w result) \<and>
            outWrites s = printedOf result"
proof -
  from exec_invariant [OF invariant_spawned assms(1)] have i: "invariant s" .
  from exec_progress [OF invariant_spawned progress_spawned assms(1)]
  have p: "progress w result s" .
  from i assms(2) have "spinAt s = Finished"
    by (auto simp: invariant_def)
  with p obtain n where n: "spinnerWrites s = framesUpTo n @ [eraseLine spinnerMessage]"
    by (auto simp: progress_def)
  from p assms(2) have "errWrites s = map (Pair SpinnerTask) (spinnerWrites s) @ reportOf w result"
    and o: "outWrites s = printedOf result"
    by (simp_all add: progress_def)
  then have "map snd (errWrites s) = spinnerWrites s @ map snd (reportOf w result)"
    by (simp add: comp_def)
  with n o show ?thesis
    by (auto simp: showSpinner_frames)
qed


end
